theory Spec2Isabelle
  imports Complex_Main "HOL-Library.Word" "HOL-Library.Log_Nat"
begin

section \<open>The Go library functions the gateway calls\<close>

subsection \<open>Package strings\<close>

text \<open>
  A Go string is a sequence of bytes; \<open>string\<close> (a list of \<open>char\<close>, one per byte) is the
  same thing. The functions below are the ones of package \<open>strings\<close> that the relay uses.
\<close>

definition HasPrefix :: "string \<Rightarrow> string \<Rightarrow> bool" where
  "HasPrefix s p = (take (length p) s = p)"

definition HasSuffix :: "string \<Rightarrow> string \<Rightarrow> bool" where
  "HasSuffix s x = (length x \<le> length s \<and> drop (length s - length x) s = x)"

definition TrimPrefix :: "string \<Rightarrow> string \<Rightarrow> string" where
  "TrimPrefix s p = (if HasPrefix s p then drop (length p) s else s)"

fun Contains :: "string \<Rightarrow> string \<Rightarrow> bool" where
  "Contains [] sub = (sub = [])"
| "Contains (c # cs) sub = (HasPrefix (c # cs) sub \<or> Contains cs sub)"

text \<open>
  \<open>strings.Split(s, sep)\<close> for a non-empty separator: cut at the leftmost occurrence of
  \<open>sep\<close>, then go on after it. The result is never empty. (With an empty separator Go
  explodes the string into its UTF-8 sequences; the gateway only ever passes the two
  literals \<open>"\n"\<close> and \<open>"\n\n"\<close>, and the model returns \<open>[s]\<close> there.)
\<close>

fun Split :: "string \<Rightarrow> string \<Rightarrow> string list" where
  "Split [] sep = [[]]"
| "Split (c # cs) sep =
     (if sep \<noteq> [] \<and> HasPrefix (c # cs) sep
      then [] # Split (drop (length sep) (c # cs)) sep
      else (case Split cs sep of [] \<Rightarrow> [[c]] | p # ps \<Rightarrow> (c # p) # ps))"

text \<open>
  \<open>strings.TrimSpace\<close> removes the leading and the trailing white-space runes, as
  \<open>unicode.IsSpace\<close> defines them. On bytes, a white-space rune is one of the following
  UTF-8 sequences: the six ASCII ones, U+0085, U+00A0, U+1680, U+2000 to U+200A, U+2028,
  U+2029, U+202F, U+205F and U+3000. An invalid sequence decodes to U+FFFD, which is not
  white space, so trimming stops there.
\<close>

definition spaceRunes :: "string list" where
  "spaceRunes =
    [[CHR 0x09], [CHR 0x0A], [CHR 0x0B], [CHR 0x0C], [CHR 0x0D], [CHR 0x20],
     [CHR 0xC2, CHR 0x85], [CHR 0xC2, CHR 0xA0],
     [CHR 0xE1, CHR 0x9A, CHR 0x80],
     [CHR 0xE2, CHR 0x80, CHR 0x80], [CHR 0xE2, CHR 0x80, CHR 0x81],
     [CHR 0xE2, CHR 0x80, CHR 0x82], [CHR 0xE2, CHR 0x80, CHR 0x83],
     [CHR 0xE2, CHR 0x80, CHR 0x84], [CHR 0xE2, CHR 0x80, CHR 0x85],
     [CHR 0xE2, CHR 0x80, CHR 0x86], [CHR 0xE2, CHR 0x80, CHR 0x87],
     [CHR 0xE2, CHR 0x80, CHR 0x88], [CHR 0xE2, CHR 0x80, CHR 0x89],
     [CHR 0xE2, CHR 0x80, CHR 0x8A],
     [CHR 0xE2, CHR 0x80, CHR 0xA8], [CHR 0xE2, CHR 0x80, CHR 0xA9],
     [CHR 0xE2, CHR 0x80, CHR 0xAF],
     [CHR 0xE2, CHR 0x81, CHR 0x9F],
     [CHR 0xE3, CHR 0x80, CHR 0x80]]"

definition leadingRune :: "string list \<Rightarrow> string \<Rightarrow> string option" where
  "leadingRune runes s = find (\<lambda>r. r \<noteq> [] \<and> HasPrefix s r) runes"

function trimLeading :: "string list \<Rightarrow> string \<Rightarrow> string" where
  "trimLeading runes s =
     (case leadingRune runes s of
        None \<Rightarrow> s
      | Some r \<Rightarrow> trimLeading runes (drop (length r) s))"
  by pat_completeness auto
termination
proof (relation "measure (\<lambda>(runes, s). length s)")
  show "wf (measure (\<lambda>(runes, s). length s))" by simp
next
  fix runes :: "string list" and s r :: string
  assume "leadingRune runes s = Some r"
  then have "r \<noteq> []" and "HasPrefix s r"
    by (auto simp: leadingRune_def find_Some_iff)
  then have "0 < length r" and "length r \<le> length s"
    by (auto simp: HasPrefix_def) (metis length_take min.cobounded1)
  then have "length s - length r < length s"
    by arith
  then show "((runes, drop (length r) s), (runes, s)) \<in> measure (\<lambda>(runes, s). length s)"
    by simp
qed

declare trimLeading.simps [simp del]

definition TrimSpace :: "string \<Rightarrow> string" where
  "TrimSpace s = rev (trimLeading (map rev spaceRunes) (rev (trimLeading spaceRunes s)))"

text \<open>\<open>strconv.Itoa\<close> and the \<open>%d\<close> verb: a decimal numeral, with a minus sign if negative.\<close>

definition digitChar :: "nat \<Rightarrow> char" where
  "digitChar d = char_of (48 + d)"

fun natDigits :: "nat \<Rightarrow> string" where
  "natDigits n = (if n < 10 then [digitChar n] else natDigits (n div 10) @ [digitChar (n mod 10)])"

declare natDigits.simps [simp del]

definition Itoa :: "int \<Rightarrow> string" where
  "Itoa i = (if i < 0 then CHR ''-'' # natDigits (nat (- i)) else natDigits (nat i))"

section \<open>The vendor adapter: server-sent events (services/anthropic.go)\<close>

type_synonym goint = "64 word"

text \<open>
  \<open>AnthropicStreamEvent\<close>, as far as the relay reads it: the event type, and the usage
  that a message carries. A pointer field is an \<open>option\<close> (\<open>None\<close> is nil).
\<close>

record StreamUsage =
  su_InputTokens :: goint
  su_OutputTokens :: goint

record StreamMessage =
  sm_Usage :: "StreamUsage option"

record AnthropicStreamEvent =
  se_Type :: string
  se_Usage :: "StreamUsage option"
  se_Message :: "StreamMessage option"

text \<open>
  \<open>json.Unmarshal\<close> into an \<open>AnthropicStreamEvent\<close> is a parameter of the model: a function
  from the payload to the decoded event, \<open>None\<close> when it returns an error.
\<close>

type_synonym stream_decoder = "string \<Rightarrow> AnthropicStreamEvent option"

text \<open>
  \<open>json.Marshal\<close> of the map \<open>{"type": "usage_update", "usage": {...}}\<close>: the encoder writes
  the keys of a map in sorted order and an \<open>int\<close> as a signed decimal numeral.
\<close>

definition marshalUsageEvent :: "goint \<Rightarrow> goint \<Rightarrow> goint \<Rightarrow> string" where
  \<open>marshalUsageEvent inp outp tot =
     ''{"type":"usage_update","usage":{"input_tokens":'' @ Itoa (sint inp) @
     '',"output_tokens":'' @ Itoa (sint outp) @
     '',"total_tokens":'' @ Itoa (sint tot) @ ''}}''\<close>

text \<open>\<open>parseSSEEvents\<close>: the text read so far, cut at the blank lines.\<close>

definition parseSSEEvents :: "string \<Rightarrow> string list" where
  "parseSSEEvents text = Split text ''\<newline>\<newline>''"

text \<open>
  \<open>processSSEEvent\<close>: the loop over the lines of the trimmed event. It returns at the first
  line that starts with \<open>data: \<close> and whose payload is neither empty nor \<open>[DONE]\<close>: with
  a \<open>usage_update\<close> event when the payload decodes to a \<open>message_stop\<close> that carries a
  usage, with the payload in a frame of its own otherwise. \<open>None\<close> is the nil slice.
\<close>

fun processLines :: "stream_decoder \<Rightarrow> string list \<Rightarrow> string option" where
  "processLines unmarshal [] = None"
| "processLines unmarshal (line # lines) =
     (if HasPrefix line ''data: '' then
        (let data = TrimPrefix line ''data: '' in
         if data = [] \<or> data = ''[DONE]'' then processLines unmarshal lines
         else
           (case unmarshal data of
              Some streamEvent \<Rightarrow>
                (case se_Message streamEvent of
                   Some message \<Rightarrow>
                     (case sm_Usage message of
                        Some usage \<Rightarrow>
                          if se_Type streamEvent = ''message_stop''
                          then Some (''data: '' @
                                 marshalUsageEvent (su_InputTokens usage) (su_OutputTokens usage)
                                   (su_InputTokens usage + su_OutputTokens usage) @
                                 ''\<newline>\<newline>'')
                          else Some (''data: '' @ data @ ''\<newline>\<newline>'')
                      | None \<Rightarrow> Some (''data: '' @ data @ ''\<newline>\<newline>''))
                 | None \<Rightarrow> Some (''data: '' @ data @ ''\<newline>\<newline>''))
            | None \<Rightarrow> Some (''data: '' @ data @ ''\<newline>\<newline>'')))
      else processLines unmarshal lines)"

definition processSSEEvent :: "stream_decoder \<Rightarrow> string \<Rightarrow> string option" where
  "processSSEEvent unmarshal eventText =
     processLines unmarshal (Split (TrimSpace eventText) ''\<newline>'')"

text \<open>
  The goroutine of \<open>StreamChatCompletion\<close>. One call of \<open>Body.Read\<close> gives the bytes read
  (empty when \<open>n = 0\<close>) and an error or nil. The inner loop runs over the events of
  \<open>remainder + string(buffer[:n])\<close>: the last one is kept as the new remainder when the
  text does not end with a blank line, every other one is processed and sent on the channel
  unless it is nil. The functions return what is sent on \<open>streamChan\<close>, in order.
\<close>

datatype read_error = EOF | ReadError string

fun forEvents :: "stream_decoder \<Rightarrow> string \<Rightarrow> string list \<Rightarrow> string \<Rightarrow> string \<times> string list" where
  "forEvents unmarshal text [] remainder = (remainder, [])"
| "forEvents unmarshal text (event # events) remainder =
     (if events = [] \<and> \<not> HasSuffix text ''\<newline>\<newline>'' then (event, [])
      else
        (let (remainder', sent) = forEvents unmarshal text events [] in
         (remainder',
          (case processSSEEvent unmarshal event of
             None \<Rightarrow> []
           | Some processedData \<Rightarrow> [processedData]) @ sent)))"

fun readLoop :: "stream_decoder \<Rightarrow> string \<Rightarrow> (string \<times> read_error option) list \<Rightarrow> string list" where
  "readLoop unmarshal remainder [] = []"
| \<open>readLoop unmarshal remainder ((buf, err) # reads) =
     (let (remainder', sent) =
            (if buf \<noteq> []
             then forEvents unmarshal (remainder @ buf) (parseSSEEvents (remainder @ buf)) remainder
             else (remainder, []))
      in sent @
         (case err of
            None \<Rightarrow> readLoop unmarshal remainder' reads
          | Some EOF \<Rightarrow> []
          | Some (ReadError msg) \<Rightarrow> [''data: {"error": "'' @ msg @ ''"}\<newline>\<newline>'']))\<close>

subsection \<open>What one text sends\<close>

text \<open>
  Auxiliary functions for the properties of the relay: what a list of events sends, and
  what the inner loop sends and keeps for one text \<open>remainder + string(buffer[:n])\<close>.
\<close>

abbreviation (input) NL :: string where "NL \<equiv> ''\<newline>\<newline>''"

definition sentOf :: "stream_decoder \<Rightarrow> string list \<Rightarrow> string list" where
  "sentOf unmarshal events =
     concat (map (\<lambda>event. case processSSEEvent unmarshal event of None \<Rightarrow> [] | Some d \<Rightarrow> [d]) events)"

definition textOut :: "stream_decoder \<Rightarrow> string \<Rightarrow> string list" where
  "textOut unmarshal text =
     (if HasSuffix text NL then sentOf unmarshal (parseSSEEvents text)
      else sentOf unmarshal (butlast (parseSSEEvents text)))"

definition textRem :: "string \<Rightarrow> string" where
  "textRem text = (if HasSuffix text NL then [] else last (parseSSEEvents text))"

definition finalSend :: "read_error \<Rightarrow> string list" where
  \<open>finalSend e = (case e of EOF \<Rightarrow> [] | ReadError msg \<Rightarrow> [''data: {"error": "'' @ msg @ ''"}\<newline>\<newline>''])\<close>


subsection \<open>What one event sends\<close>

text \<open>
  Auxiliary functions for the properties of \<open>processSSEEvent\<close>: the payload it returns at,
  which is that of the first \<open>data: \<close> line with a payload other than the empty one and
  \<open>[DONE]\<close>; the usage of a payload that is the terminal usage summary; and the frame sent
  for such a usage.
\<close>

fun firstPayload :: "string list \<Rightarrow> string option" where
  "firstPayload [] = None"
| "firstPayload (line # lines) =
     (if HasPrefix line ''data: '' \<and> TrimPrefix line ''data: '' \<noteq> []
         \<and> TrimPrefix line ''data: '' \<noteq> ''[DONE]''
      then Some (TrimPrefix line ''data: '')
      else firstPayload lines)"

definition terminalUsage :: "stream_decoder \<Rightarrow> string \<Rightarrow> StreamUsage option" where
  "terminalUsage unmarshal data =
     (case unmarshal data of
        None \<Rightarrow> None
      | Some streamEvent \<Rightarrow>
          (case se_Message streamEvent of
             None \<Rightarrow> None
           | Some message \<Rightarrow>
               (case sm_Usage message of
                  None \<Rightarrow> None
                | Some usage \<Rightarrow>
                    if se_Type streamEvent = ''message_stop'' then Some usage else None)))"

definition usageFrame :: "StreamUsage \<Rightarrow> string" where
  "usageFrame usage =
     ''data: '' @
     marshalUsageEvent (su_InputTokens usage) (su_OutputTokens usage)
       (su_InputTokens usage + su_OutputTokens usage) @ NL"


section \<open>The vendor adapter: requests and responses (services/anthropic.go)\<close>

text \<open>
  The structs of package \<open>models\<close>. \<open>'f\<close> stands for \<open>float64\<close> and \<open>'v\<close> for a non-nil
  value of type \<open>interface{}\<close>; the adapter only copies such values. A pointer, an interface
  or a map that may be nil is an \<open>option\<close>. A Go \<open>error\<close> is its message.
\<close>

type_synonym error = string

record ChatMessage =
  msg_Role :: string
  msg_Content :: string

record ('f, 'v) ChatCompletionRequest =
  req_Model :: string
  req_Messages :: "ChatMessage list"
  req_MaxTokens :: "goint option"
  req_Temperature :: "'f option"
  req_TopP :: "'f option"
  req_Stream :: bool
  req_Stop :: "'v option"
  req_System :: string
  req_Metadata :: "(string \<rightharpoonup> 'v) option"
  req_AnthropicVersion :: string

text \<open>\<open>ValidateRequest\<close>: the loop over the messages carries the index for the message.\<close>

fun validateMessages :: "nat \<Rightarrow> ChatMessage list \<Rightarrow> error option" where
  "validateMessages i [] = None"
| "validateMessages i (msg # msgs) =
     (if msg_Role msg \<noteq> ''user'' \<and> msg_Role msg \<noteq> ''assistant''
      then Some (''message '' @ Itoa (int i) @ '': role must be 'user' or 'assistant' for Anthropic'')
      else if msg_Content msg = []
      then Some (''message '' @ Itoa (int i) @ '': content cannot be empty'')
      else validateMessages (Suc i) msgs)"

definition ValidateRequest :: "('f, 'v) ChatCompletionRequest \<Rightarrow> error option" where
  "ValidateRequest req =
     (if req_Model req = [] then Some ''model is required''
      else
        (case req_Messages req of
           [] \<Rightarrow> Some ''messages are required''
         | first # rest \<Rightarrow>
             (case validateMessages 0 (first # rest) of
                Some err \<Rightarrow> Some err
              | None \<Rightarrow>
                  if msg_Role first \<noteq> ''user''
                  then Some ''first message must be from user for Anthropic''
                  else None)))"

text \<open>
  \<open>TransformRequest\<close> builds a \<open>map[string]interface{}\<close>: a finite map from keys to the
  values stored, each with its dynamic type. Its error is always nil.
\<close>

datatype ('f, 'v) payload_value =
    VString string
  | VMessages "ChatMessage list"
  | VInt goint
  | VFloat 'f
  | VBool bool
  | VInterface 'v
  | VMap "string \<rightharpoonup> 'v"

definition TransformRequest ::
  "('f, 'v) ChatCompletionRequest \<Rightarrow> error + (string \<rightharpoonup> ('f, 'v) payload_value)" where
  "TransformRequest req =
     (let anthropicReq = [''model'' \<mapsto> VString (req_Model req),
                          ''messages'' \<mapsto> VMessages (req_Messages req)];
          anthropicReq = (case req_MaxTokens req of
                            Some n \<Rightarrow> anthropicReq(''max_tokens'' \<mapsto> VInt n)
                          | None \<Rightarrow> anthropicReq(''max_tokens'' \<mapsto> VInt 4096));
          anthropicReq = (case req_Temperature req of
                            Some t \<Rightarrow> anthropicReq(''temperature'' \<mapsto> VFloat t)
                          | None \<Rightarrow> anthropicReq);
          anthropicReq = (case req_TopP req of
                            Some p \<Rightarrow> anthropicReq(''top_p'' \<mapsto> VFloat p)
                          | None \<Rightarrow> anthropicReq);
          anthropicReq = (if req_System req \<noteq> []
                          then anthropicReq(''system'' \<mapsto> VString (req_System req))
                          else anthropicReq);
          anthropicReq = (case req_Stop req of
                            Some stop \<Rightarrow> anthropicReq(''stop_sequences'' \<mapsto> VInterface stop)
                          | None \<Rightarrow> anthropicReq);
          anthropicReq = (if req_Stream req
                          then anthropicReq(''stream'' \<mapsto> VBool True)
                          else anthropicReq);
          anthropicReq = (case req_Metadata req of
                            Some metadata \<Rightarrow> anthropicReq(''metadata'' \<mapsto> VMap metadata)
                          | None \<Rightarrow> anthropicReq)
      in Inr anthropicReq)"


text \<open>\<open>TransformResponse\<close>: the vendor's response body as the neutral response.\<close>

record AnthropicContent =
  ac_Type :: string
  ac_Text :: string

record AnthropicUsage =
  au_InputTokens :: goint
  au_OutputTokens :: goint

record AnthropicResponse =
  ar_ID :: string
  ar_Type :: string
  ar_Role :: string
  ar_Model :: string
  ar_Content :: "AnthropicContent list"
  ar_StopReason :: string
  ar_StopSequence :: string
  ar_Usage :: AnthropicUsage

record ChatCompletionContent =
  cc_Type :: string
  cc_Text :: string

record ChatCompletionChoice =
  ch_Index :: goint
  ch_Message :: ChatMessage
  ch_FinishReason :: string

record ChatCompletionUsage =
  InputTokens :: goint
  OutputTokens :: goint
  TotalTokens :: goint
  PromptTokens :: goint
  CompletionTokens :: goint

record ChatCompletionResponse =
  resp_ID :: string
  resp_Type :: string
  resp_Role :: string
  resp_Model :: string
  resp_Content :: "ChatCompletionContent list"
  resp_Usage :: ChatCompletionUsage
  resp_Object :: string
  resp_Created :: int
  resp_Choices :: "ChatCompletionChoice list"

text \<open>
  The argument is an \<open>interface{}\<close>: \<open>Some r\<close> is a pointer to the response \<open>r\<close>, \<open>None\<close> a
  value of any other dynamic type, for which the type assertion fails. \<open>now\<close> is
  \<open>time.Now().Unix()\<close>.
\<close>

definition TransformResponse :: "int \<Rightarrow> AnthropicResponse option \<Rightarrow> error + ChatCompletionResponse" where
  "TransformResponse now resp =
     (case resp of
        None \<Rightarrow> Inl ''invalid response type''
      | Some anthropicResp \<Rightarrow>
          (let response =
                 \<lparr>resp_ID = ar_ID anthropicResp,
                  resp_Type = ar_Type anthropicResp,
                  resp_Role = ar_Role anthropicResp,
                  resp_Model = ar_Model anthropicResp,
                  resp_Content = [],
                  resp_Usage =
                    \<lparr>InputTokens = au_InputTokens (ar_Usage anthropicResp),
                     OutputTokens = au_OutputTokens (ar_Usage anthropicResp),
                     TotalTokens = au_InputTokens (ar_Usage anthropicResp)
                                   + au_OutputTokens (ar_Usage anthropicResp),
                     PromptTokens = au_InputTokens (ar_Usage anthropicResp),
                     CompletionTokens = au_OutputTokens (ar_Usage anthropicResp)\<rparr>,
                  resp_Object = [],
                  resp_Created = 0,
                  resp_Choices = []\<rparr>;
               response = response\<lparr>resp_Content :=
                   map (\<lambda>content. \<lparr>cc_Type = ac_Type content, cc_Text = ac_Text content\<rparr>)
                     (ar_Content anthropicResp)\<rparr>
           in (case ar_Content anthropicResp of
                 [] \<Rightarrow> Inr response
               | content0 # _ \<Rightarrow>
                   Inr (response
                     \<lparr>resp_Choices :=
                        [\<lparr>ch_Index = 0,
                          ch_Message = \<lparr>msg_Role = ar_Role anthropicResp,
                                        msg_Content = ac_Text content0\<rparr>,
                          ch_FinishReason = ar_StopReason anthropicResp\<rparr>],
                      resp_Object := ''chat.completion'',
                      resp_Created := now\<rparr>))))"

section \<open>The gateway: streaming calls (services/llm.go)\<close>

text \<open>
  \<open>extractUsageFromSSE\<close> decodes each \<open>data: \<close> line into an anonymous struct with a type
  and three token counts; \<open>json.Unmarshal\<close> into that struct is again a parameter.
\<close>

record UsageEvent =
  ue_Type :: string
  ue_InputTokens :: goint
  ue_OutputTokens :: goint
  ue_TotalTokens :: goint

type_synonym usage_decoder = "string \<Rightarrow> UsageEvent option"

fun extractLines :: "usage_decoder \<Rightarrow> string list \<Rightarrow> ChatCompletionUsage option" where
  "extractLines unmarshal [] = None"
| "extractLines unmarshal (line # lines) =
     (if HasPrefix line ''data: '' then
        (case unmarshal (TrimPrefix line ''data: '') of
           Some usageEvent \<Rightarrow>
             if ue_Type usageEvent = ''usage_update''
             then Some \<lparr>InputTokens = ue_InputTokens usageEvent,
                        OutputTokens = ue_OutputTokens usageEvent,
                        TotalTokens = ue_TotalTokens usageEvent,
                        PromptTokens = ue_InputTokens usageEvent,
                        CompletionTokens = ue_OutputTokens usageEvent\<rparr>
             else extractLines unmarshal lines
         | None \<Rightarrow> extractLines unmarshal lines)
      else extractLines unmarshal lines)"

definition extractUsageFromSSE :: "usage_decoder \<Rightarrow> string \<Rightarrow> ChatCompletionUsage option" where
  "extractUsageFromSSE unmarshal dataStr =
     (if \<not> Contains dataStr ''usage_update'' then None
      else extractLines unmarshal (Split (TrimSpace dataStr) ''\<newline>''))"

text \<open>
  The goroutine that wraps the adapter's channel. It ranges over the items of
  \<open>streamChan\<close>, keeps the usage of an item that is a usage event, and sends every other
  item on \<open>wrappedChan\<close>, a channel with a buffer of 100. How the loop ends depends on
  the client, so the client is part of the model.

  In services/llm.go the send blocks while the buffer is full. The loop gets past its
  \<open>k\<close>-th send exactly when \<open>k\<close> is at most 100 plus the number of items the client ever
  receives: \<open>budget\<close> is that bound for the sends still to come, \<open>None\<close> for a client that
  receives until the channel is closed. A send beyond the budget never returns.
\<close>

datatype loop_end =
    RangeDone "ChatCompletionUsage option"
  | BlockedOnSend
  | ReturnedEarly

definition wrappedChanCap :: nat where
  "wrappedChanCap = 100"

fun forwardBlocking ::
  "usage_decoder \<Rightarrow> nat option \<Rightarrow> string list \<Rightarrow> ChatCompletionUsage option \<Rightarrow> string list \<times> loop_end" where
  "forwardBlocking unmarshal budget [] finalUsage = ([], RangeDone finalUsage)"
| "forwardBlocking unmarshal budget (data # rest) finalUsage =
     (case extractUsageFromSSE unmarshal data of
        Some usage \<Rightarrow> forwardBlocking unmarshal budget rest (Some usage)
      | None \<Rightarrow>
          (case budget of
             None \<Rightarrow>
               (let (sent, ending) = forwardBlocking unmarshal None rest finalUsage
                in (data # sent, ending))
           | Some 0 \<Rightarrow> ([], BlockedOnSend)
           | Some (Suc b) \<Rightarrow>
               (let (sent, ending) = forwardBlocking unmarshal (Some b) rest finalUsage
                in (data # sent, ending))))"

definition blockingBudget :: "nat option \<Rightarrow> nat option" where
  "blockingBudget clientReceives = map_option (\<lambda>n. n + wrappedChanCap) clientReceives"

text \<open>
  In the later revision of the file the send is a \<open>select\<close> with a \<open>default\<close> branch that
  returns from the goroutine. Whether a send finds room depends on how many items sit in
  the buffer: \<open>queued\<close> counts them, and \<open>taken i\<close> is the number of items the client
  receives between the previous send and the \<open>i\<close>-th one.
\<close>

fun forwardSelect ::
  "usage_decoder \<Rightarrow> (nat \<Rightarrow> nat) \<Rightarrow> nat \<Rightarrow> nat \<Rightarrow> string list \<Rightarrow> ChatCompletionUsage option
     \<Rightarrow> string list \<times> loop_end" where
  "forwardSelect unmarshal taken i queued [] finalUsage = ([], RangeDone finalUsage)"
| "forwardSelect unmarshal taken i queued (data # rest) finalUsage =
     (case extractUsageFromSSE unmarshal data of
        Some usage \<Rightarrow> forwardSelect unmarshal taken i queued rest (Some usage)
      | None \<Rightarrow>
          (let queued' = queued - taken i in
           if queued' < wrappedChanCap
           then (let (sent, ending) =
                       forwardSelect unmarshal taken (Suc i) (Suc queued') rest finalUsage
                 in (data # sent, ending))
           else ([], ReturnedEarly)))"


section \<open>Package time\<close>

text \<open>
  A \<open>time.Time\<close> is an instant, here in nanoseconds since the Unix epoch, and a location.
  The model has the locations with a fixed offset from UTC (in seconds east), which is
  what \<open>time.UTC\<close> and \<open>time.FixedZone\<close> give. The calendar is the proleptic Gregorian one.
\<close>

record Time =
  wall :: int
  zone :: int

definition Before :: "int \<Rightarrow> int \<Rightarrow> bool" where
  "Before t u = (t < u)"

definition Hour :: int where
  "Hour = 3600 * 1000000000"

definition Minute :: int where
  "Minute = 60 * 1000000000"

text \<open>
  \<open>t.Truncate(d)\<close> rounds down to a multiple of \<open>d\<close> since the zero time, which is midnight
  UTC of January 1 of year 1, 62135596800 seconds before the Unix epoch; the location
  plays no part. (For instants after the zero time.)
\<close>

definition Truncate :: "int \<Rightarrow> Time \<Rightarrow> Time" where
  "Truncate d t =
     (if d \<le> 0 then t
      else t\<lparr>wall := wall t - ((wall t + 62135596800 * 1000000000) mod d)\<rparr>)"

definition Add :: "int \<Rightarrow> Time \<Rightarrow> Time" where
  "Add d t = t\<lparr>wall := wall t + d\<rparr>"

definition daysFromCivil :: "int \<Rightarrow> int \<Rightarrow> int \<Rightarrow> int" where
  "daysFromCivil year month day =
     (let y = (if month \<le> 2 then year - 1 else year);
          era = y div 400;
          yoe = y - era * 400;
          mp = (if month > 2 then month - 3 else month + 9);
          doy = (153 * mp + 2) div 5 + day - 1;
          doe = yoe * 365 + yoe div 4 - yoe div 100 + doy
      in era * 146097 + doe - 719468)"

definition civilFromDays :: "int \<Rightarrow> int \<times> int \<times> int" where
  "civilFromDays days =
     (let z = days + 719468;
          era = z div 146097;
          doe = z - era * 146097;
          yoe = (doe - doe div 1460 + doe div 36524 - doe div 146096) div 365;
          doy = doe - (365 * yoe + yoe div 4 - yoe div 100);
          mp = (5 * doy + 2) div 153;
          day = doy - (153 * mp + 2) div 5 + 1;
          month = (if mp < 10 then mp + 3 else mp - 9);
          year = yoe + era * 400 + (if month \<le> 2 then 1 else 0)
      in (year, month, day))"

definition localNanos :: "Time \<Rightarrow> int" where
  "localNanos t = wall t + zone t * 1000000000"

definition Year :: "Time \<Rightarrow> int" where
  "Year t = fst (civilFromDays (localNanos t div (24 * Hour)))"

definition Month :: "Time \<Rightarrow> int" where
  "Month t = fst (snd (civilFromDays (localNanos t div (24 * Hour))))"

definition Day :: "Time \<Rightarrow> int" where
  "Day t = snd (snd (civilFromDays (localNanos t div (24 * Hour))))"

text \<open>
  \<open>time.Date(year, month, day, 0, 0, 0, nsec, loc)\<close>, with \<open>nsec\<close> the nanoseconds since
  local midnight; a month outside 1 to 12 and a day outside the month are normalised.
\<close>

definition Date :: "int \<Rightarrow> int \<Rightarrow> int \<Rightarrow> int \<Rightarrow> int \<Rightarrow> Time" where
  "Date year month day nsec loc =
     (let m0 = month - 1;
          y = year + m0 div 12;
          m = m0 mod 12 + 1
      in \<lparr>wall = (daysFromCivil y m 1 + (day - 1)) * (24 * Hour) + nsec - loc * 1000000000,
          zone = loc\<rparr>)"

definition AddDate :: "int \<Rightarrow> int \<Rightarrow> int \<Rightarrow> Time \<Rightarrow> Time" where
  "AddDate years months days t =
     Date (Year t + years) (Month t + months) (Day t + days)
       (localNanos t mod (24 * Hour)) (zone t)"

section \<open>The durable store and the cache\<close>

text \<open>
  The rows of the tables the gateway reads and writes, with the columns it uses (the
  serialized request and response of a log row are left out). A store whose connection
  is down fails every statement.
\<close>

record Provider =
  prov_ID :: nat
  prov_Name :: string
  prov_Type :: string

record APIKey =
  key_ID :: nat
  key_DeletedAt :: "int option"
  key_UserID :: nat
  key_ProviderID :: nat
  key_Provider :: Provider
  key_Name :: string
  key_KeyValue :: string
  key_Status :: string
  key_ExpiresAt :: "int option"
  key_DailyRequestLimit :: int
  key_MonthlyRequestLimit :: int

record 'f LLMModel =
  model_ID :: nat
  model_DeletedAt :: "int option"
  model_ProviderID :: nat
  model_ModelID :: string
  model_Status :: string
  model_InputCostPer1K :: 'f
  model_OutputCostPer1K :: 'f

record 'f LLMRequestLog =
  log_ID :: nat
  log_CreatedAt :: int
  log_RequestID :: string
  log_UserID :: nat
  log_APIKeyID :: nat
  log_ProviderID :: nat
  log_ModelID :: nat
  log_ModelName :: string
  log_InputTokens :: goint
  log_OutputTokens :: goint
  log_TotalTokens :: goint
  log_LatencyMs :: int
  log_InputCost :: 'f
  log_OutputCost :: 'f
  log_TotalCost :: 'f
  log_Status :: string
  log_ErrorMessage :: string
  log_HTTPStatus :: int
  log_ClientIP :: string
  log_UserAgent :: string

record 'f DB =
  db_down :: bool
  api_keys :: "APIKey list"
  llm_models :: "'f LLMModel list"
  llm_request_logs :: "'f LLMRequestLog list"

record 'f LLMRequestContext =
  ctx_RequestID :: string
  ctx_UserID :: nat
  ctx_APIKeyID :: nat
  ctx_Provider :: Provider
  ctx_Model :: "'f LLMModel option"
  ctx_APIKey :: APIKey
  ctx_ClientIP :: string
  ctx_UserAgent :: string
  ctx_StartTime :: int

record UsageCounts =
  DailyCount :: int
  MonthlyCount :: int

text \<open>
  The cache service (Redis). A key holds a value until its time to live is over; the
  values are the two kinds of JSON entries the service writes. \<open>None\<close> is the nil client.
  Marshalling an \<open>APIKey\<close> drops the fields tagged \<open>json:"-"\<close>, the key value and the
  deletion time, so the copy that comes back from the cache has them zero.
\<close>

record APIKeyCacheEntry =
  ce_APIKey :: APIKey
  ce_CachedAt :: int
  ce_ExpiresAt :: "int option"

record UsageCacheEntry =
  uc_DailyCount :: int
  uc_MonthlyCount :: int
  uc_CachedAt :: int

datatype cache_value = KeyEntry APIKeyCacheEntry | UsageEntry UsageCacheEntry

type_synonym redis = "(string \<rightharpoonup> cache_value \<times> int) option"

definition redisGet :: "redis \<Rightarrow> int \<Rightarrow> string \<Rightarrow> cache_value option" where
  "redisGet r now k =
     (case r of
        None \<Rightarrow> None
      | Some store \<Rightarrow>
          (case store k of
             None \<Rightarrow> None
           | Some (v, expiry) \<Rightarrow> if now < expiry then Some v else None))"

definition redisSet :: "redis \<Rightarrow> int \<Rightarrow> string \<Rightarrow> cache_value \<Rightarrow> int \<Rightarrow> redis" where
  "redisSet r now k v ttl = map_option (\<lambda>store. store(k \<mapsto> (v, now + ttl))) r"

definition redisDel :: "redis \<Rightarrow> string \<Rightarrow> redis" where
  "redisDel r k = map_option (\<lambda>store. store(k := None)) r"

definition marshalAPIKey :: "APIKey \<Rightarrow> APIKey" where
  "marshalAPIKey k = k\<lparr>key_KeyValue := [], key_DeletedAt := None\<rparr>"

definition GetAPIKey :: "redis \<Rightarrow> int \<Rightarrow> string \<Rightarrow> APIKey option \<times> redis" where
  "GetAPIKey r now apiKey =
     (let cacheKey = ''api_key:'' @ apiKey in
      case redisGet r now cacheKey of
        Some (KeyEntry entry) \<Rightarrow>
          (case ce_ExpiresAt entry of
             Some expires \<Rightarrow>
               if Before expires now then (None, redisDel r cacheKey)
               else (Some (ce_APIKey entry), r)
           | None \<Rightarrow> (Some (ce_APIKey entry), r))
      | _ \<Rightarrow> (None, r))"

definition SetAPIKey :: "redis \<Rightarrow> int \<Rightarrow> string \<Rightarrow> APIKey \<Rightarrow> int \<Rightarrow> redis" where
  "SetAPIKey r now apiKey dbAPIKey ttl =
     redisSet r now (''api_key:'' @ apiKey)
       (KeyEntry \<lparr>ce_APIKey = marshalAPIKey dbAPIKey, ce_CachedAt = now,
                   ce_ExpiresAt = key_ExpiresAt dbAPIKey\<rparr>) ttl"

definition GetUsageCount :: "redis \<Rightarrow> int \<Rightarrow> nat \<Rightarrow> UsageCounts option" where
  "GetUsageCount r now apiKeyID =
     (case redisGet r now (''usage:'' @ Itoa (int apiKeyID)) of
        Some (UsageEntry entry) \<Rightarrow>
          Some \<lparr>DailyCount = uc_DailyCount entry, MonthlyCount = uc_MonthlyCount entry\<rparr>
      | _ \<Rightarrow> None)"

definition SetUsageCount :: "redis \<Rightarrow> int \<Rightarrow> nat \<Rightarrow> UsageCounts \<Rightarrow> int \<Rightarrow> redis" where
  "SetUsageCount r now apiKeyID usage ttl =
     redisSet r now (''usage:'' @ Itoa (int apiKeyID))
       (UsageEntry \<lparr>uc_DailyCount = DailyCount usage, uc_MonthlyCount = MonthlyCount usage,
                     uc_CachedAt = now\<rparr>) ttl"

definition InvalidateAPIKey :: "redis \<Rightarrow> string \<Rightarrow> redis" where
  "InvalidateAPIKey r apiKey = redisDel r (''api_key:'' @ apiKey)"

section \<open>The gateway: authentication and quota (services/llm.go)\<close>

text \<open>
  \<open>getBatchUsageFromDB\<close>: \<open>now\<close> is the one \<open>time.Now()\<close> of the function. The statement is
  two \<open>COUNT(*)\<close> over the log rows of the key, each over a half-open range of
  \<open>created_at\<close>, tagged \<open>true\<close> and \<open>false\<close>; the loop over the two result rows fills the
  counts.
\<close>

definition countLogs :: "'f LLMRequestLog list \<Rightarrow> nat \<Rightarrow> int \<Rightarrow> int \<Rightarrow> int" where
  "countLogs logs apiKeyID lo hi =
     int (length (filter (\<lambda>row. log_APIKeyID row = apiKeyID
                              \<and> lo \<le> log_CreatedAt row \<and> log_CreatedAt row < hi) logs))"

fun scanUsage :: "(bool \<times> int) list \<Rightarrow> UsageCounts \<Rightarrow> UsageCounts" where
  "scanUsage [] usage = usage"
| "scanUsage ((isDaily, n) # results) usage =
     scanUsage results
       (if isDaily then usage\<lparr>DailyCount := n\<rparr> else usage\<lparr>MonthlyCount := n\<rparr>)"

definition getBatchUsageFromDB :: "'f DB \<Rightarrow> Time \<Rightarrow> nat \<Rightarrow> error + UsageCounts" where
  "getBatchUsageFromDB db now apiKeyID =
     (let today = Truncate (24 * Hour) now;
          tomorrow = Add (24 * Hour) today;
          monthStart = Date (Year now) (Month now) 1 0 (zone now);
          monthEnd = AddDate 0 1 0 monthStart
      in if db_down db then Inl ''database error''
         else
           (let results =
                  [(True, countLogs (llm_request_logs db) apiKeyID (wall today) (wall tomorrow)),
                   (False, countLogs (llm_request_logs db) apiKeyID (wall monthStart) (wall monthEnd))]
            in Inr (scanUsage results \<lparr>DailyCount = 0, MonthlyCount = 0\<rparr>)))"

text \<open>
  \<open>validateUsageLimitsOptimized\<close> returns the request context or an error, and the cache
  as it leaves it. \<open>requestID\<close> is the fresh UUID.
\<close>

definition validateUsageLimitsOptimized ::
  "'f DB \<Rightarrow> redis \<Rightarrow> Time \<Rightarrow> string \<Rightarrow> APIKey \<Rightarrow> (error + 'f LLMRequestContext) \<times> redis" where
  "validateUsageLimitsOptimized db r now requestID dbAPIKey =
     (let requestCtx =
            \<lparr>ctx_RequestID = requestID, ctx_UserID = key_UserID dbAPIKey,
             ctx_APIKeyID = key_ID dbAPIKey, ctx_Provider = key_Provider dbAPIKey,
             ctx_Model = None, ctx_APIKey = dbAPIKey, ctx_ClientIP = [], ctx_UserAgent = [],
             ctx_StartTime = wall now\<rparr>;
          check = (\<lambda>usage r'.
            if key_DailyRequestLimit dbAPIKey > 0
               \<and> DailyCount usage \<ge> key_DailyRequestLimit dbAPIKey
            then (Inl ''daily request limit exceeded'', r')
            else if key_MonthlyRequestLimit dbAPIKey > 0
               \<and> MonthlyCount usage \<ge> key_MonthlyRequestLimit dbAPIKey
            then (Inl ''monthly request limit exceeded'', r')
            else (Inr requestCtx, r'))
      in if key_DailyRequestLimit dbAPIKey > 0 \<or> key_MonthlyRequestLimit dbAPIKey > 0 then
           (case GetUsageCount r (wall now) (key_ID dbAPIKey) of
              Some cachedUsage \<Rightarrow> check cachedUsage r
            | None \<Rightarrow>
                (case getBatchUsageFromDB db now (key_ID dbAPIKey) of
                   Inl err \<Rightarrow> (Inl (''failed to check usage limits: '' @ err), r)
                 | Inr usage \<Rightarrow>
                     check usage (SetUsageCount r (wall now) (key_ID dbAPIKey) usage (1 * Minute))))
         else (Inr requestCtx, r))"

text \<open>
  \<open>ValidateAPIKeyOptimized\<close>. The query of the store is \<open>First\<close> over the rows that are not
  soft-deleted, with the key value and the status \<open>active\<close>.
\<close>

definition ValidateAPIKeyOptimized ::
  "'f DB \<Rightarrow> redis \<Rightarrow> Time \<Rightarrow> string \<Rightarrow> string \<Rightarrow> (error + 'f LLMRequestContext) \<times> redis" where
  "ValidateAPIKeyOptimized db r now requestID apiKey =
     (case GetAPIKey r (wall now) apiKey of
        (Some cachedAPIKey, r') \<Rightarrow> validateUsageLimitsOptimized db r' now requestID cachedAPIKey
      | (None, r') \<Rightarrow>
          (case (if db_down db then None
                 else find (\<lambda>row. key_DeletedAt row = None \<and> key_KeyValue row = apiKey
                                  \<and> key_Status row = ''active'') (api_keys db)) of
             None \<Rightarrow> (Inl ''invalid API key'', r')
           | Some dbAPIKey \<Rightarrow>
               (case key_ExpiresAt dbAPIKey of
                  Some expires \<Rightarrow>
                    if Before expires (wall now) then (Inl ''API key expired'', r')
                    else validateUsageLimitsOptimized db
                           (SetAPIKey r' (wall now) apiKey dbAPIKey (5 * Minute)) now requestID dbAPIKey
                | None \<Rightarrow>
                    validateUsageLimitsOptimized db
                      (SetAPIKey r' (wall now) apiKey dbAPIKey (5 * Minute)) now requestID dbAPIKey)))"


text \<open>
  Auxiliary functions for the properties of the quota check: the usage snapshot that
  \<open>validateUsageLimitsOptimized\<close> obtains, from the cache or else from the store, and the
  two errors that report an exceeded quota.
\<close>

definition usageRead :: "'f DB \<Rightarrow> redis \<Rightarrow> Time \<Rightarrow> APIKey \<Rightarrow> error + UsageCounts" where
  "usageRead db r now dbAPIKey =
     (case GetUsageCount r (wall now) (key_ID dbAPIKey) of
        Some cachedUsage \<Rightarrow> Inr cachedUsage
      | None \<Rightarrow> getBatchUsageFromDB db now (key_ID dbAPIKey))"

definition QuotaExceeded :: "error + 'a \<Rightarrow> bool" where
  "QuotaExceeded result =
     (result = Inl ''daily request limit exceeded'' \<or> result = Inl ''monthly request limit exceeded'')"


section \<open>Float64 arithmetic and the cost of a call (services/anthropic.go)\<close>

text \<open>
  A \<open>float64\<close> is an IEEE 754 binary64 value: a finite value, which is a rational number,
  an infinity with its sign (\<open>True\<close> for the positive one) or a NaN. The two zeros are one
  value here; Go compares them equal. Every operation returns the exact result rounded
  to the nearest value with 53 bits of precision, ties to the even one, with the spacing
  of the subnormal values below \<open>2^-1022\<close>, and an infinity when the rounded magnitude
  reaches \<open>2^1024\<close>. \<open>ilog2 q\<close> is the exponent of \<open>q\<close>, the integer \<open>E\<close> with
  \<open>2^E \<le> |q| < 2^(E+1)\<close>.
\<close>

datatype float64 = Finite rat | Infinity bool | NaN

definition pow2 :: "int \<Rightarrow> rat" where
  "pow2 e = (if 0 \<le> e then 2 ^ nat e else 1 / 2 ^ nat (- e))"

definition ilog2 :: "rat \<Rightarrow> int" where
  "ilog2 q =
     (let (a, b) = quotient_of \<bar>q\<bar>;
          d = bitlen a - bitlen b
      in if pow2 d \<le> \<bar>q\<bar> then d else d - 1)"

definition roundHalfEven :: "rat \<Rightarrow> int" where
  "roundHalfEven x =
     (let f = \<lfloor>x\<rfloor>; r = x - of_int f
      in if r < 1 / 2 then f
         else if 1 / 2 < r then f + 1
         else if even f then f else f + 1)"

definition round64 :: "rat \<Rightarrow> float64" where
  "round64 q =
     (if q = 0 then Finite 0
      else
        (let E = ilog2 q;
             e = max (E - 52) (- 1074);
             m = roundHalfEven (q / pow2 e)
         in if 1024 \<le> E \<or> (E = 1023 \<and> \<bar>m\<bar> = 2 ^ 53) then Infinity (0 < q)
            else Finite (of_int m * pow2 e)))"

fun fmul :: "float64 \<Rightarrow> float64 \<Rightarrow> float64" where
  "fmul (Finite x) (Finite y) = round64 (x * y)"
| "fmul (Finite x) (Infinity t) = (if x = 0 then NaN else Infinity ((0 < x) = t))"
| "fmul (Infinity s) (Finite y) = (if y = 0 then NaN else Infinity (s = (0 < y)))"
| "fmul (Infinity s) (Infinity t) = Infinity (s = t)"
| "fmul NaN y = NaN"
| "fmul x NaN = NaN"

fun fdiv :: "float64 \<Rightarrow> float64 \<Rightarrow> float64" where
  "fdiv (Finite x) (Finite y) =
     (if y = 0 then (if x = 0 then NaN else Infinity (0 < x)) else round64 (x / y))"
| "fdiv (Finite x) (Infinity t) = Finite 0"
| "fdiv (Infinity s) (Finite y) = Infinity (s = (0 \<le> y))"
| "fdiv (Infinity s) (Infinity t) = NaN"
| "fdiv NaN y = NaN"
| "fdiv x NaN = NaN"

fun fadd :: "float64 \<Rightarrow> float64 \<Rightarrow> float64" where
  "fadd (Finite x) (Finite y) = round64 (x + y)"
| "fadd (Finite x) (Infinity t) = Infinity t"
| "fadd (Infinity s) (Finite y) = Infinity s"
| "fadd (Infinity s) (Infinity t) = (if s = t then Infinity s else NaN)"
| "fadd NaN y = NaN"
| "fadd x NaN = NaN"

text \<open>The conversion \<open>float64(n)\<close> of an \<open>int\<close>.\<close>

definition float64_of_int :: "goint \<Rightarrow> float64" where
  "float64_of_int n = round64 (of_int (sint n))"

text \<open>\<open>CalculateCost\<close>, on the usage and on the two prices of the model.\<close>

definition CalculateCost ::
  "ChatCompletionUsage \<Rightarrow> float64 LLMModel \<Rightarrow> float64 \<times> float64 \<times> float64" where
  "CalculateCost usage model =
     (let inputCost =
            fdiv (fmul (float64_of_int (InputTokens usage)) (model_InputCostPer1K model)) (Finite 1000);
          outputCost =
            fdiv (fmul (float64_of_int (OutputTokens usage)) (model_OutputCostPer1K model)) (Finite 1000);
          totalCost = fadd inputCost outputCost
      in (inputCost, outputCost, totalCost))"


section \<open>The gateway: the accounting record of a streaming call (services/llm.go)\<close>

definition GetModelByName :: "'f DB \<Rightarrow> nat \<Rightarrow> string \<Rightarrow> error + 'f LLMModel" where
  "GetModelByName db providerID modelName =
     (case (if db_down db then None
            else find (\<lambda>row. model_DeletedAt row = None \<and> model_ProviderID row = providerID
                             \<and> model_ModelID row = modelName \<and> model_Status row = ''active'')
                   (llm_models db)) of
        None \<Rightarrow> Inl (''model not found: '' @ modelName)
      | Some model \<Rightarrow> Inr model)"

text \<open>
  \<open>createRequestLog\<close> inserts a row in state \<open>pending\<close>; the store gives it the next
  identifier and the creation time, and refuses a request identifier it already has
  (the column has a unique index). The columns the function does not set are zero.
\<close>

definition createRequestLog ::
  "'f::zero DB \<Rightarrow> int \<Rightarrow> 'f LLMRequestContext \<Rightarrow> 'f LLMModel \<Rightarrow> string
     \<Rightarrow> (error + 'f LLMRequestLog) \<times> 'f DB" where
  "createRequestLog db now ctx model modelName =
     (let log = \<lparr>log_ID = Suc (fold max (map log_ID (llm_request_logs db)) 0),
                 log_CreatedAt = now,
                 log_RequestID = ctx_RequestID ctx,
                 log_UserID = ctx_UserID ctx,
                 log_APIKeyID = ctx_APIKeyID ctx,
                 log_ProviderID = prov_ID (ctx_Provider ctx),
                 log_ModelID = model_ID model,
                 log_ModelName = modelName,
                 log_InputTokens = 0, log_OutputTokens = 0, log_TotalTokens = 0,
                 log_LatencyMs = 0,
                 log_InputCost = 0, log_OutputCost = 0, log_TotalCost = 0,
                 log_Status = ''pending'',
                 log_ErrorMessage = [],
                 log_HTTPStatus = 0,
                 log_ClientIP = ctx_ClientIP ctx,
                 log_UserAgent = ctx_UserAgent ctx\<rparr>
      in if db_down db \<or> ctx_RequestID ctx \<in> set (map log_RequestID (llm_request_logs db))
         then (Inl ''database error'', db)
         else (Inr log, db\<lparr>llm_request_logs := llm_request_logs db @ [log]\<rparr>))"

definition updatesWhereID ::
  "'f DB \<Rightarrow> nat \<Rightarrow> ('f LLMRequestLog \<Rightarrow> 'f LLMRequestLog) \<Rightarrow> 'f DB" where
  "updatesWhereID db logID updates =
     (if db_down db then db
      else db\<lparr>llm_request_logs :=
             map (\<lambda>row. if log_ID row = logID then updates row else row) (llm_request_logs db)\<rparr>)"

definition updateRequestLogError :: "'f DB \<Rightarrow> nat \<Rightarrow> error \<Rightarrow> int \<Rightarrow> 'f DB" where
  "updateRequestLogError db logID err latencyMs =
     updatesWhereID db logID
       (\<lambda>row. row\<lparr>log_Status := ''failed'', log_ErrorMessage := err,
                   log_LatencyMs := latencyMs, log_HTTPStatus := 500\<rparr>)"

definition updateRequestLogStreamComplete :: "'f DB \<Rightarrow> nat \<Rightarrow> int \<Rightarrow> 'f DB" where
  "updateRequestLogStreamComplete db logID latencyMs =
     updatesWhereID db logID
       (\<lambda>row. row\<lparr>log_Status := ''completed'', log_LatencyMs := latencyMs,
                   log_HTTPStatus := 200\<rparr>)"

definition updateRequestLogStreamSuccess ::
  "'f DB \<Rightarrow> nat \<Rightarrow> ChatCompletionUsage \<Rightarrow> 'f \<Rightarrow> 'f \<Rightarrow> 'f \<Rightarrow> int \<Rightarrow> 'f DB" where
  "updateRequestLogStreamSuccess db logID usage inputCost outputCost totalCost latencyMs =
     updatesWhereID db logID
       (\<lambda>row. row\<lparr>log_Status := ''completed'',
                   log_InputTokens := InputTokens usage,
                   log_OutputTokens := OutputTokens usage,
                   log_TotalTokens := TotalTokens usage,
                   log_InputCost := inputCost,
                   log_OutputCost := outputCost,
                   log_TotalCost := totalCost,
                   log_LatencyMs := latencyMs,
                   log_HTTPStatus := 200\<rparr>)"

text \<open>
  The end of the goroutine, after the loop over the adapter's channel: the update of the
  log row. It is reached when the loop has run through the channel; a goroutine that is
  blocked in a send, or that has returned from the \<open>default\<close> branch, does not get there.
  The cost calculator of the provider, which is \<open>CalculateCost\<close> for this vendor, is a
  parameter, so that the store may hold the costs in any number type.
\<close>

type_synonym 'f cost_calculator = "ChatCompletionUsage \<Rightarrow> 'f LLMModel \<Rightarrow> 'f \<times> 'f \<times> 'f"

definition finishStream ::
  "'f cost_calculator \<Rightarrow> 'f DB \<Rightarrow> nat \<Rightarrow> 'f LLMModel \<Rightarrow> int \<Rightarrow> loop_end \<Rightarrow> 'f DB" where
  "finishStream calculateCost db logID model latencyMs ending =
     (case ending of
        RangeDone (Some finalUsage) \<Rightarrow>
          (let (inputCost, outputCost, totalCost) = calculateCost finalUsage model
           in updateRequestLogStreamSuccess db logID finalUsage inputCost outputCost totalCost latencyMs)
      | RangeDone None \<Rightarrow> updateRequestLogStreamComplete db logID latencyMs
      | BlockedOnSend \<Rightarrow> db
      | ReturnedEarly \<Rightarrow> db)"

text \<open>
  \<open>StreamChatCompletion\<close> of the service. \<open>upstream\<close> is what the adapter's
  \<open>StreamChatCompletion\<close> returns: an error, or the channel, given by the items that arrive
  on it until it is closed. The result is the error, or what is sent on the returned
  channel and how the goroutine ends; and the store, once the goroutine has ended or
  has come to a stop.
\<close>

definition StreamChatCompletion ::
  "'f cost_calculator \<Rightarrow> usage_decoder \<Rightarrow> 'f::zero DB \<Rightarrow> int \<Rightarrow> int \<Rightarrow> 'f LLMRequestContext
     \<Rightarrow> string \<Rightarrow> string \<Rightarrow> string \<Rightarrow> error + string list \<Rightarrow> nat option
     \<Rightarrow> (error + string list \<times> loop_end) \<times> 'f DB" where
  "StreamChatCompletion calculateCost unmarshal db now latencyMs ctx0 modelName clientIP userAgent
       upstream clientReceives =
     (let ctx = ctx0\<lparr>ctx_ClientIP := clientIP, ctx_UserAgent := userAgent\<rparr> in
      case GetModelByName db (prov_ID (ctx_Provider ctx)) modelName of
        Inl err \<Rightarrow> (Inl err, db)
      | Inr model \<Rightarrow>
          (let ctx = ctx\<lparr>ctx_Model := Some model\<rparr> in
           if prov_Type (ctx_Provider ctx) \<noteq> ''anthropic''
           then (Inl (''provider '' @ prov_Type (ctx_Provider ctx) @ '' not supported''), db)
           else
             (case createRequestLog db now ctx model modelName of
                (Inl err, db') \<Rightarrow> (Inl (''failed to create request log: '' @ err), db')
              | (Inr requestLog, db') \<Rightarrow>
                  (case upstream of
                     Inl err \<Rightarrow>
                       (Inl err, updateRequestLogError db' (log_ID requestLog) err latencyMs)
                   | Inr streamChan \<Rightarrow>
                       (let (sent, ending) =
                              forwardBlocking unmarshal (blockingBudget clientReceives) streamChan None
                        in (Inr (sent, ending),
                            finishStream calculateCost db' (log_ID requestLog) model latencyMs ending))))))"

text \<open>The same function in the later revision, with the non-blocking send.\<close>

definition StreamChatCompletion_select ::
  "'f cost_calculator \<Rightarrow> usage_decoder \<Rightarrow> 'f::zero DB \<Rightarrow> int \<Rightarrow> int \<Rightarrow> 'f LLMRequestContext
     \<Rightarrow> string \<Rightarrow> string \<Rightarrow> string \<Rightarrow> error + string list \<Rightarrow> (nat \<Rightarrow> nat)
     \<Rightarrow> (error + string list \<times> loop_end) \<times> 'f DB" where
  "StreamChatCompletion_select calculateCost unmarshal db now latencyMs ctx0 modelName clientIP
       userAgent upstream taken =
     (let ctx = ctx0\<lparr>ctx_ClientIP := clientIP, ctx_UserAgent := userAgent\<rparr> in
      case GetModelByName db (prov_ID (ctx_Provider ctx)) modelName of
        Inl err \<Rightarrow> (Inl err, db)
      | Inr model \<Rightarrow>
          (let ctx = ctx\<lparr>ctx_Model := Some model\<rparr> in
           if prov_Type (ctx_Provider ctx) \<noteq> ''anthropic''
           then (Inl (''provider '' @ prov_Type (ctx_Provider ctx) @ '' not supported''), db)
           else
             (case createRequestLog db now ctx model modelName of
                (Inl err, db') \<Rightarrow> (Inl (''failed to create request log: '' @ err), db')
              | (Inr requestLog, db') \<Rightarrow>
                  (case upstream of
                     Inl err \<Rightarrow>
                       (Inl err, updateRequestLogError db' (log_ID requestLog) err latencyMs)
                   | Inr streamChan \<Rightarrow>
                       (let (sent, ending) = forwardSelect unmarshal taken 0 0 streamChan None
                        in (Inr (sent, ending),
                            finishStream calculateCost db' (log_ID requestLog) model latencyMs ending))))))"

text \<open>
  Auxiliary function for the properties of the goroutine: the usage it holds after the
  items, which is that of the last item that is a usage event.
\<close>

definition lastUsage :: "usage_decoder \<Rightarrow> string list \<Rightarrow> ChatCompletionUsage option \<Rightarrow> ChatCompletionUsage option" where
  "lastUsage unmarshal items finalUsage =
     (case rev (List.map_filter (extractUsageFromSSE unmarshal) items) of
        [] \<Rightarrow> finalUsage
      | usage # _ \<Rightarrow> Some usage)"

text \<open>
  Auxiliary function for the properties of the goroutine with the \<open>select\<close>: of \<open>n\<close> sends
  to come, the number that find room in the buffer before the first one that does not.
\<close>

fun sendsWithRoom :: "(nat \<Rightarrow> nat) \<Rightarrow> nat \<Rightarrow> nat \<Rightarrow> nat \<Rightarrow> nat" where
  "sendsWithRoom taken i queued 0 = 0"
| "sendsWithRoom taken i queued (Suc n) =
     (let queued' = queued - taken i in
      if queued' < wrappedChanCap then Suc (sendsWithRoom taken (Suc i) (Suc queued') n) else 0)"


section \<open>Decoded payloads of the examples\<close>

text \<open>
  What \<open>json.Unmarshal\<close> returns for the payloads that the concrete examples below use:
  a ping, a content delta, a \<open>message_stop\<close> with the usage 12 and 34 and a usage event
  for the adapter; the usage event for the service. The payload \<open>exampleUntyped\<close> below has
  a string where both structs have the usage, so it is an error for both decoders. No
  example decodes another payload.
\<close>

definition exampleStreamDecoder :: stream_decoder where
  \<open>exampleStreamDecoder payload =
     (if payload = ''{"type": "ping"}''
      then Some \<lparr>se_Type = ''ping'', se_Usage = None, se_Message = None\<rparr>
      else if payload = ''{"type":"content_block_delta","delta":{"text":"Hi"}}''
      then Some \<lparr>se_Type = ''content_block_delta'', se_Usage = None, se_Message = None\<rparr>
      else if payload = ''{"type":"message_stop","message":{"usage":{"input_tokens":12,"output_tokens":34}}}''
      then Some \<lparr>se_Type = ''message_stop'', se_Usage = None,
                  se_Message = Some \<lparr>sm_Usage = Some \<lparr>su_InputTokens = 12, su_OutputTokens = 34\<rparr>\<rparr>\<rparr>
      else if payload = ''{"type":"usage_update","usage":{"input_tokens":12,"output_tokens":34,"total_tokens":46}}''
      then Some \<lparr>se_Type = ''usage_update'',
                  se_Usage = Some \<lparr>su_InputTokens = 12, su_OutputTokens = 34\<rparr>, se_Message = None\<rparr>
      else None)\<close>

definition exampleUsageDecoder :: usage_decoder where
  \<open>exampleUsageDecoder payload =
     (if payload = ''{"type":"usage_update","usage":{"input_tokens":12,"output_tokens":34,"total_tokens":46}}''
      then Some \<lparr>ue_Type = ''usage_update'', ue_InputTokens = 12, ue_OutputTokens = 34,
                  ue_TotalTokens = 46\<rparr>
      else None)\<close>

text \<open>The events and values of the examples.\<close>

definition exampleStop :: string where
  \<open>exampleStop = ''event: message_stop\<newline>data: {"type":"message_stop","message":{"usage":{"input_tokens":12,"output_tokens":34}}}''\<close>

definition examplePing :: string where
  \<open>examplePing = ''{"type": "ping"}''\<close>

definition exampleUsageUpdate :: string where
  \<open>exampleUsageUpdate = ''{"type":"usage_update","usage":{"input_tokens":12,"output_tokens":34,"total_tokens":46}}''\<close>

definition exampleUntyped :: string where
  \<open>exampleUntyped = ''{"type":"usage_update","usage":"n/a"}''\<close>

definition exampleDelta :: string where
  \<open>exampleDelta = ''event: content_block_delta\<newline>data: {"type":"content_block_delta","delta":{"text":"Hi"}}''\<close>

text \<open>
  A stream of two complete events and the beginning of a third one.
\<close>

definition exampleTail :: string where
  \<open>exampleTail = ''data: {"type": "pi''\<close>

definition exampleStream :: string where
  "exampleStream = exampleDelta @ NL @ exampleStop @ NL @ exampleTail"

definition exampleUsage :: StreamUsage where
  "exampleUsage = \<lparr>su_InputTokens = 12, su_OutputTokens = 34\<rparr>"

definition exampleAnthropicResponse :: AnthropicResponse where
  "exampleAnthropicResponse =
     \<lparr>ar_ID = ''msg_1'', ar_Type = ''message'', ar_Role = ''assistant'', ar_Model = ''claude-3'',
      ar_Content = [\<lparr>ac_Type = ''text'', ac_Text = ''Hi''\<rparr>], ar_StopReason = ''end_turn'',
      ar_StopSequence = [], ar_Usage = \<lparr>au_InputTokens = 12, au_OutputTokens = 34\<rparr>\<rparr>"

definition exampleNow :: Time where
  "exampleNow = \<lparr>wall = 1793534400 * 1000000000, zone = 8 * 3600\<rparr>"

definition exampleProvider :: Provider where
  "exampleProvider = \<lparr>prov_ID = 1, prov_Name = ''Anthropic'', prov_Type = ''anthropic''\<rparr>"

definition exampleKey :: "int \<Rightarrow> string \<Rightarrow> APIKey" where
  "exampleKey dailyLimit status =
     \<lparr>key_ID = 7, key_DeletedAt = None, key_UserID = 3, key_ProviderID = 1,
      key_Provider = exampleProvider, key_Name = ''demo'', key_KeyValue = ''sk-demo'',
      key_Status = status, key_ExpiresAt = None,
      key_DailyRequestLimit = dailyLimit, key_MonthlyRequestLimit = 0\<rparr>"

definition exampleRow :: "nat \<Rightarrow> string \<Rightarrow> int LLMRequestLog" where
  "exampleRow n status =
     \<lparr>log_ID = n, log_CreatedAt = wall exampleNow - int n * Minute,
      log_RequestID = ''req-'' @ Itoa (int n), log_UserID = 3, log_APIKeyID = 7,
      log_ProviderID = 1, log_ModelID = 1, log_ModelName = ''claude-3'',
      log_InputTokens = 0, log_OutputTokens = 0, log_TotalTokens = 0, log_LatencyMs = 0,
      log_InputCost = 0, log_OutputCost = 0, log_TotalCost = 0,
      log_Status = status, log_ErrorMessage = [], log_HTTPStatus = 0,
      log_ClientIP = [], log_UserAgent = []\<rparr>"

definition exampleModel :: "int LLMModel" where
  "exampleModel =
     \<lparr>model_ID = 1, model_DeletedAt = None, model_ProviderID = 1, model_ModelID = ''claude-3'',
      model_Status = ''active'', model_InputCostPer1K = 3, model_OutputCostPer1K = 15\<rparr>"

definition exampleDB :: "APIKey list \<Rightarrow> int LLMRequestLog list \<Rightarrow> int DB" where
  "exampleDB keys logs =
     \<lparr>db_down = False, api_keys = keys, llm_models = [exampleModel], llm_request_logs = logs\<rparr>"

definition emptyCache :: redis where
  "emptyCache = Some Map.empty"

definition exampleCache :: redis where
  "exampleCache =
     SetAPIKey emptyCache (wall exampleNow - Minute) ''sk-demo'' (exampleKey 0 ''active'') (5 * Minute)"

definition exampleStore :: "string \<rightharpoonup> cache_value \<times> int" where
  "exampleStore =
     [''api_key:sk-demo'' \<mapsto>
        (KeyEntry \<lparr>ce_APIKey = marshalAPIKey (exampleKey 0 ''active''),
                    ce_CachedAt = wall exampleNow - Minute, ce_ExpiresAt = None\<rparr>,
         wall exampleNow + 4 * Minute)]"

definition exampleCtx :: "int LLMRequestContext" where
  "exampleCtx =
     \<lparr>ctx_RequestID = ''req-1'', ctx_UserID = 3, ctx_APIKeyID = 7, ctx_Provider = exampleProvider,
      ctx_Model = None, ctx_APIKey = exampleKey 0 ''active'', ctx_ClientIP = [], ctx_UserAgent = [],
      ctx_StartTime = wall exampleNow\<rparr>"

definition completedOrPending :: "'f LLMRequestLog \<Rightarrow> bool" where
  "completedOrPending row = (log_Status row = ''completed'' \<or> log_Status row = ''pending'')"

definition noCost :: "int cost_calculator" where
  "noCost usage model = (0, 0, 0)"

definition neverTaken :: "nat \<Rightarrow> nat" where
  "neverTaken i = 0"

text \<open>A client that receives one item for every two that are sent to it.\<close>

definition slowClient :: "nat \<Rightarrow> nat" where
  "slowClient i = (if even i then 1 else 0)"

text \<open>
  A model with the prices 0.001 and 0.002 (the store's defaults), as the \<open>float64\<close>
  values nearest to them, and the usage with given token counts.
\<close>

definition examplePricedModel :: "float64 LLMModel" where
  "examplePricedModel =
     \<lparr>model_ID = 1, model_DeletedAt = None, model_ProviderID = 1, model_ModelID = ''claude-3'',
      model_Status = ''active'', model_InputCostPer1K = round64 (1 / 1000),
      model_OutputCostPer1K = round64 (2 / 1000)\<rparr>"

definition usageOf :: "goint \<Rightarrow> goint \<Rightarrow> ChatCompletionUsage" where
  "usageOf inp outp =
     \<lparr>InputTokens = inp, OutputTokens = outp, TotalTokens = inp + outp,
      PromptTokens = inp, CompletionTokens = outp\<rparr>"


section \<open>Properties of the vendor adapter\<close>

subsection \<open>Request validation\<close>

lemma validateMessages_fails_iff:
  "validateMessages i msgs \<noteq> None \<longleftrightarrow>
     (\<exists>m \<in> set msgs. msg_Content m = [] \<or> (msg_Role m \<noteq> ''user'' \<and> msg_Role m \<noteq> ''assistant''))"
  by (induction msgs arbitrary: i) auto

text \<open>
  C8. \<open>ValidateRequest\<close> returns an error exactly when the model is absent, or the message
  list is empty, or some message has an empty content, or some message has a role other
  than \<open>user\<close> and \<open>assistant\<close>, or the first message is not from \<open>user\<close>; otherwise it
  returns nil. (Every error of this function is a plain \<open>error\<close>: the code has one error
  type, and the category of the failure is that of the function.)
\<close>

theorem ValidateRequest_fails_iff:
  "ValidateRequest req \<noteq> None \<longleftrightarrow>
     (req_Model req = []
      \<or> req_Messages req = []
      \<or> (\<exists>m \<in> set (req_Messages req). msg_Content m = [])
      \<or> (\<exists>m \<in> set (req_Messages req). msg_Role m \<notin> {''user'', ''assistant''})
      \<or> (req_Messages req \<noteq> [] \<and> msg_Role (hd (req_Messages req)) \<noteq> ''user''))"
proof (cases "req_Messages req")
  case Nil
  then show ?thesis by (simp add: ValidateRequest_def)
next
  case (Cons first rest)
  have v: "validateMessages 0 (first # rest) \<noteq> None \<longleftrightarrow>
       (\<exists>m \<in> set (first # rest). msg_Content m = []
          \<or> (msg_Role m \<noteq> ''user'' \<and> msg_Role m \<noteq> ''assistant''))"
    by (rule validateMessages_fails_iff)
  show ?thesis
  proof (cases "validateMessages 0 (first # rest)")
    case None
    with v Cons show ?thesis
      by (auto simp: ValidateRequest_def)
  next
    case (Some err)
    with v Cons show ?thesis
      by (auto simp: ValidateRequest_def)
  qed
qed

theorem ValidateRequest_fails_iff_witness:
  "ValidateRequest
     \<lparr>req_Model = ''claude-3'', req_Messages = [\<lparr>msg_Role = ''user'', msg_Content = ''hi''\<rparr>],
      req_MaxTokens = None, req_Temperature = (None :: int option), req_TopP = None,
      req_Stream = False, req_Stop = (None :: string option), req_System = [],
      req_Metadata = None, req_AnthropicVersion = []\<rparr> = None
   \<and> ValidateRequest
     \<lparr>req_Model = ''claude-3'',
      req_Messages = [\<lparr>msg_Role = ''assistant'', msg_Content = ''hi''\<rparr>],
      req_MaxTokens = None, req_Temperature = (None :: int option), req_TopP = None,
      req_Stream = False, req_Stop = (None :: string option), req_System = [],
      req_Metadata = None, req_AnthropicVersion = []\<rparr> \<noteq> None"
  using ValidateRequest_fails_iff
     [of "\<lparr>req_Model = ''claude-3'', req_Messages = [\<lparr>msg_Role = ''user'', msg_Content = ''hi''\<rparr>],
      req_MaxTokens = None, req_Temperature = (None :: int option), req_TopP = None,
      req_Stream = False, req_Stop = (None :: string option), req_System = [],
      req_Metadata = None, req_AnthropicVersion = []\<rparr>"]
    ValidateRequest_fails_iff
     [of "\<lparr>req_Model = ''claude-3'',
      req_Messages = [\<lparr>msg_Role = ''assistant'', msg_Content = ''hi''\<rparr>],
      req_MaxTokens = None, req_Temperature = (None :: int option), req_TopP = None,
      req_Stream = False, req_Stop = (None :: string option), req_System = [],
      req_Metadata = None, req_AnthropicVersion = []\<rparr>"]
  by simp

subsection \<open>Request transformation\<close>

text \<open>
  C9. In the payload of \<open>TransformRequest\<close>, \<open>temperature\<close>, \<open>top_p\<close>, \<open>stop_sequences\<close>,
  \<open>system\<close> and \<open>stream\<close> are keys exactly when the request has them (a non-nil pointer or
  interface, a non-empty system prompt, a true streaming flag), each with the request's own
  value and never with a null; \<open>max_tokens\<close> is always a key, with the request's value or
  the default 4096; and the payload has no key besides these, \<open>model\<close>, \<open>messages\<close> and
  \<open>metadata\<close>.
\<close>

theorem TransformRequest_optional_fields:
  "\<exists>payload. TransformRequest req = Inr payload
     \<and> payload ''model'' = Some (VString (req_Model req))
     \<and> payload ''messages'' = Some (VMessages (req_Messages req))
     \<and> payload ''max_tokens'' =
          Some (VInt (case req_MaxTokens req of Some n \<Rightarrow> n | None \<Rightarrow> 4096))
     \<and> payload ''temperature'' = map_option VFloat (req_Temperature req)
     \<and> payload ''top_p'' = map_option VFloat (req_TopP req)
     \<and> payload ''stop_sequences'' = map_option VInterface (req_Stop req)
     \<and> payload ''system'' = (if req_System req = [] then None else Some (VString (req_System req)))
     \<and> payload ''stream'' = (if req_Stream req then Some (VBool True) else None)
     \<and> payload ''metadata'' = map_option VMap (req_Metadata req)
     \<and> dom payload \<subseteq> {''model'', ''messages'', ''max_tokens'', ''temperature'', ''top_p'',
           ''stop_sequences'', ''system'', ''stream'', ''metadata''}"
  by (cases "req_MaxTokens req"; cases "req_Temperature req"; cases "req_TopP req";
      cases "req_Stop req"; cases "req_Metadata req")
     (simp_all add: TransformRequest_def Let_def)

section \<open>Properties of the streaming relay\<close>

subsection \<open>Splitting and trimming\<close>

lemma HasPrefix_iff: "HasPrefix s p \<longleftrightarrow> (\<exists>r. s = p @ r)"
  unfolding HasPrefix_def
  by (metis append_eq_conv_conj append_take_drop_id)

lemma HasSuffix_iff: "HasSuffix s x \<longleftrightarrow> (\<exists>p. s = p @ x)"
proof
  assume "HasSuffix s x"
  then have "s = take (length s - length x) s @ x"
    unfolding HasSuffix_def by (metis append_take_drop_id)
  then show "\<exists>p. s = p @ x" ..
next
  assume "\<exists>p. s = p @ x"
  then show "HasSuffix s x" unfolding HasSuffix_def by auto
qed

lemma Split_nonempty: "Split s sep \<noteq> []"
  by (cases s) (auto split: list.splits)

lemma Split_short: "length s < length sep \<Longrightarrow> Split s sep = [s]"
proof (induction s)
  case Nil
  then show ?case by simp
next
  case (Cons c cs)
  then have "\<not> HasPrefix (c # cs) sep"
    by (auto simp: HasPrefix_def) 
  moreover have "Split cs sep = [cs]" using Cons by simp
  ultimately show ?case by simp
qed

lemma Split_single: "Split s sep = [p] \<Longrightarrow> s = p"
proof (induction s arbitrary: p)
  case Nil
  then show ?case by simp
next
  case (Cons c cs)
  obtain q qs where q: "Split cs sep = q # qs"
    using Split_nonempty[of cs sep] by (cases "Split cs sep") auto
  from Cons q show ?case
    using Split_nonempty[of "drop (length sep) (c # cs)" sep]
    by (auto split: if_splits)
qed

lemma Split_append:
  "Split (t @ u) sep = butlast (Split t sep) @ Split (last (Split t sep) @ u) sep"
proof (induction t sep rule: Split.induct)
  case (1 sep)
  then show ?case by simp
next
  case (2 c cs sep)
  show ?case
  proof (cases "sep \<noteq> [] \<and> HasPrefix (c # cs) sep")
    case True
    then obtain r where r: "c # cs = sep @ r" by (auto simp: HasPrefix_iff)
    then have pre: "HasPrefix ((c # cs) @ u) sep" by (auto simp: HasPrefix_iff)
    have d: "drop (length sep) ((c # cs) @ u) = drop (length sep) (c # cs) @ u"
      using r by simp
    from True pre d 2(1)[OF True] show ?thesis
      using Split_nonempty[of "drop (length sep) (c # cs)" sep]
      by (simp del: drop_append)
  next
    case False
    show ?thesis
    proof (cases "sep \<noteq> [] \<and> HasPrefix ((c # cs) @ u) sep")
      case True
      with False have "length (c # cs) < length sep"
        by (metis (no_types, lifting) HasPrefix_def HasPrefix_iff append_eq_append_conv_if nat_less_le)
      then have "Split (c # cs) sep = [c # cs]" by (rule Split_short)
      then show ?thesis by simp
    next
      case F2: False
      obtain p ps where pp: "Split cs sep = p # ps"
        using Split_nonempty[of cs sep] by (cases "Split cs sep") auto
      have ih: "Split (cs @ u) sep = butlast (Split cs sep) @ Split (last (Split cs sep) @ u) sep"
        using 2(2)[OF False] .
      show ?thesis
      proof (cases ps)
        case Nil
        then have "cs = p" using pp Split_single by blast
        with False F2 pp Nil show ?thesis by auto
      next
        case (Cons a list)
        with False F2 pp ih show ?thesis by auto
      qed
    qed
  qed
qed

lemma sentOf_simps [simp]:
  "sentOf u [] = []"
  "sentOf u (e # es) = (case processSSEEvent u e of None \<Rightarrow> [] | Some d \<Rightarrow> [d]) @ sentOf u es"
  "sentOf u (xs @ ys) = sentOf u xs @ sentOf u ys"
  by (simp_all add: sentOf_def)

lemma forEvents_eq:
  "events \<noteq> [] \<Longrightarrow>
   forEvents u text events r =
     (if HasSuffix text ''\<newline>\<newline>'' then ([], sentOf u events)
      else (last events, sentOf u (butlast events)))"
proof (induction events arbitrary: r)
  case Nil
  then show ?case by simp
next
  case (Cons e es)
  show ?case
  proof (cases "es = []")
    case True
    then show ?thesis by simp
  next
    case False
    with Cons.IH[OF False] show ?thesis by simp
  qed
qed

lemma forEvents_text:
  "forEvents u text (parseSSEEvents text) r = (textRem text, textOut u text)"
  using forEvents_eq[of "parseSSEEvents text" u "text" r] Split_nonempty[of "text" "[CHR 10, CHR 10]"]
  by (simp add: parseSSEEvents_def textRem_def textOut_def)

lemma leadingRune_nl: "leadingRune spaceRunes (CHR ''\<newline>'' # e) = Some ''\<newline>''"
  by (simp add: leadingRune_def spaceRunes_def HasPrefix_def)

lemma trimLeading_nl: "trimLeading spaceRunes (CHR ''\<newline>'' # e) = trimLeading spaceRunes e"
  by (subst trimLeading.simps) (simp add: leadingRune_nl)

lemma TrimSpace_nl: "TrimSpace (CHR ''\<newline>'' # e) = TrimSpace e"
  by (simp add: TrimSpace_def trimLeading_nl)

lemma trimLeading_Nil: "trimLeading runes [] = []"
proof -
  have "leadingRune runes [] = None"
    by (auto simp: leadingRune_def find_None_iff HasPrefix_def)
  then show ?thesis by (subst trimLeading.simps) simp
qed

lemma TrimSpace_Nil: "TrimSpace [] = []"
  by (simp add: TrimSpace_def trimLeading_Nil)

lemma processSSEEvent_Nil: "processSSEEvent u [] = None"
  by (simp add: processSSEEvent_def TrimSpace_Nil HasPrefix_def)

lemma processSSEEvent_nl: "processSSEEvent u (CHR ''\<newline>'' # e) = processSSEEvent u e"
  by (simp add: processSSEEvent_def TrimSpace_nl)

lemma processSSEEvent_nl1: "processSSEEvent u ''\<newline>'' = None"
  by (simp add: processSSEEvent_nl processSSEEvent_Nil)

lemma HasSuffix_NL_rev: "HasSuffix s NL \<longleftrightarrow> (\<exists>r. rev s = CHR ''\<newline>'' # CHR ''\<newline>'' # r)"
proof
  assume "HasSuffix s NL"
  then obtain p where "s = p @ NL" by (auto simp: HasSuffix_iff)
  then show "\<exists>r. rev s = CHR ''\<newline>'' # CHR ''\<newline>'' # r" by simp
next
  assume "\<exists>r. rev s = CHR ''\<newline>'' # CHR ''\<newline>'' # r"
  then obtain r where "rev s = CHR ''\<newline>'' # CHR ''\<newline>'' # r" ..
  then have "s = rev r @ NL" by (metis rev_rev_ident rev.simps append.assoc append_Cons append_Nil)
  then show "HasSuffix s NL" by (auto simp: HasSuffix_iff)
qed

lemma Split_last_suffix:
  "\<exists>pre. t = pre @ last (Split t sep) \<and>
      ((pre = [] \<and> Split t sep = [t]) \<or> (sep \<noteq> [] \<and> HasSuffix pre sep))"
proof (induction t sep rule: Split.induct)
  case (1 sep)
  then show ?case by simp
next
  case (2 c cs sep)
  show ?case
  proof (cases "sep \<noteq> [] \<and> HasPrefix (c # cs) sep")
    case True
    then obtain r where r: "c # cs = sep @ r" by (auto simp: HasPrefix_iff)
    then have d: "drop (length sep) (c # cs) = r" by simp
    from 2(1)[OF True] d obtain pre where
      pre: "r = pre @ last (Split r sep)" by auto
    have l: "last (Split (c # cs) sep) = last (Split r sep)"
      using True d Split_nonempty[of r sep] by simp
    have "c # cs = (sep @ pre) @ last (Split r sep)" using r pre(1) by simp
    moreover have "HasSuffix (sep @ pre) sep"
    proof -
      from 2(1)[OF True] d pre have "pre = [] \<or> HasSuffix pre sep"
        by (metis HasSuffix_iff append_Nil append_same_eq)
      then show ?thesis by (auto simp: HasSuffix_iff)
    qed
    ultimately show ?thesis using l True by metis
  next
    case False
    obtain p ps where pp: "Split cs sep = p # ps"
      using Split_nonempty[of cs sep] by (cases "Split cs sep") auto
    from 2(2)[OF False] obtain pre where
      pre: "cs = pre @ last (Split cs sep)"
           "(pre = [] \<and> Split cs sep = [cs]) \<or> (sep \<noteq> [] \<and> HasSuffix pre sep)" by auto
    show ?thesis
    proof (cases ps)
      case Nil
      then have "Split (c # cs) sep = [c # cs]"
        using False pp Split_single[of cs sep p] by auto
      then show ?thesis by simp
    next
      case (Cons a list)
      then have l: "last (Split (c # cs) sep) = last (Split cs sep)"
        using False pp by auto
      from Cons pp pre(2) have h: "sep \<noteq> []" "HasSuffix pre sep" by auto
      then have "HasSuffix (c # pre) sep" by (auto simp: HasSuffix_iff)
      moreover have "c # cs = (c # pre) @ last (Split cs sep)" using pre(1) by simp
      ultimately show ?thesis using l h(1) by metis
    qed
  qed
qed

lemma Split_single_nosep:
  "sep \<noteq> [] \<Longrightarrow> Split t sep = [p] \<Longrightarrow> t \<noteq> a @ sep @ b"
proof (induction t arbitrary: p a)
  case Nil
  then show ?case by simp
next
  case (Cons c cs)
  have np: "\<not> HasPrefix (c # cs) sep"
    using Cons.prems Split_nonempty[of "drop (length sep) (c # cs)" sep] by auto
  obtain q qs where q: "Split cs sep = q # qs"
    using Split_nonempty[of cs sep] by (cases "Split cs sep") auto
  with Cons.prems np have qs: "qs = []" by auto
  show ?case
  proof (cases a)
    case Nil
    then show ?thesis using np by (auto simp: HasPrefix_iff)
  next
    case (Cons x a')
    then show ?thesis using Cons.IH[OF Cons.prems(1), of q a'] q qs by auto
  qed
qed

lemma Split_last_nosep:
  "sep \<noteq> [] \<Longrightarrow> last (Split t sep) \<noteq> a @ sep @ b"
proof (induction t sep arbitrary: a rule: Split.induct)
  case (1 sep)
  then show ?case by simp
next
  case (2 c cs sep)
  show ?case
  proof (cases "sep \<noteq> [] \<and> HasPrefix (c # cs) sep")
    case True
    then show ?thesis
      using 2(1)[OF True, of a] Split_nonempty[of "drop (length sep) (c # cs)" sep] by simp
  next
    case False
    obtain p ps where pp: "Split cs sep = p # ps"
      using Split_nonempty[of cs sep] by (cases "Split cs sep") auto
    show ?thesis
    proof (cases ps)
      case Nil
      then have "Split (c # cs) sep = [c # cs]"
        using False pp Split_single[of cs sep p] by auto
      then show ?thesis using Split_single_nosep[OF 2(3), of "c # cs" "c # cs" a b] by simp
    next
      case (Cons x xs)
      then have "last (Split (c # cs) sep) = last (Split cs sep)"
        using False pp by auto
      then show ?thesis using 2(2)[OF False 2(3), of a] by simp
    qed
  qed
qed

lemma last_piece_blank:
  assumes "HasSuffix t NL"
  shows "last (Split t NL) = [] \<or> last (Split t NL) = ''\<newline>''"
proof -
  obtain pre where t: "t = pre @ last (Split t NL)"
    using Split_last_suffix[of t NL] by blast
  from assms obtain r where r: "rev t = CHR ''\<newline>'' # CHR ''\<newline>'' # r"
    by (auto simp: HasSuffix_NL_rev)
  have ns: "\<And>a b. last (Split t NL) \<noteq> a @ NL @ b"
    using Split_last_nosep[of NL t] by simp
  show ?thesis
  proof (cases "rev (last (Split t NL))")
    case Nil
    then show ?thesis by simp
  next
    case (Cons x xs)
    note c1 = Cons
    show ?thesis
    proof (cases xs)
      case Nil
      with c1 have l: "last (Split t NL) = [x]" by (metis rev_singleton_conv)
      with t have "rev t = x # rev pre" by (metis rev_append rev_singleton_conv append_Cons append_Nil)
      with r l show ?thesis by simp
    next
      case (Cons y ys)
      with c1 have l: "last (Split t NL) = rev ys @ [y, x]"
        by (metis rev_rev_ident rev.simps append.assoc append_Cons append_Nil)
      with t have "rev t = x # y # (ys @ rev pre)" by (metis rev_append rev.simps rev_rev_ident append.assoc append_Cons append_Nil)
      with r have "x = CHR ''\<newline>''" "y = CHR ''\<newline>''" by auto
      with l ns[of "rev ys" "[]"] show ?thesis by simp
    qed
  qed
qed

lemma HasSuffix_NL_long: "2 \<le> length ys \<Longrightarrow> HasSuffix (xs @ ys) NL = HasSuffix ys NL"
  by (simp add: HasSuffix_def numeral_2_eq_2)

lemma HasSuffix_NL_Nil: "\<not> HasSuffix [] NL"
  by (simp add: HasSuffix_def)

lemma HasSuffix_NL_one: "\<not> HasSuffix [a] NL"
  by (simp add: HasSuffix_def)

lemma HasSuffix_NL_last: "HasSuffix xs NL \<Longrightarrow> xs \<noteq> [] \<and> last xs = CHR ''\<newline>''"
  by (auto simp: HasSuffix_iff)

lemma HasSuffix_NL_snoc:
  "HasSuffix (xs @ [a]) NL \<longleftrightarrow> a = CHR ''\<newline>'' \<and> xs \<noteq> [] \<and> last xs = CHR ''\<newline>''"
proof (cases xs rule: rev_cases)
  case Nil
  then show ?thesis by (simp add: HasSuffix_NL_one)
next
  case (snoc ys y)
  then have "HasSuffix (xs @ [a]) NL = HasSuffix [y, a] NL"
    using HasSuffix_NL_long[of "[y, a]" ys] by simp
  then show ?thesis using snoc by (auto simp: HasSuffix_def)
qed

lemma HasSuffix_last_piece:
  assumes "\<not> HasSuffix t NL"
  shows "HasSuffix (t @ v) NL = HasSuffix (last (Split t NL) @ v) NL"
proof -
  obtain pre where t: "t = pre @ last (Split t NL)"
    and pre: "(pre = [] \<and> Split t NL = [t]) \<or> HasSuffix pre NL"
    using Split_last_suffix[of t NL] by blast
  define l where "l = last (Split t NL)"
  have t': "t = pre @ l" using t l_def by simp
  have nt: "\<not> HasSuffix (pre @ l) NL" using assms t' by simp
  have "HasSuffix (pre @ (l @ v)) NL = HasSuffix (l @ v) NL"
  proof (cases "2 \<le> length (l @ v)")
    case True
    then show ?thesis by (rule HasSuffix_NL_long)
  next
    case False
    then consider "l = []" "v = []" | a where "l = [a]" "v = []" | a where "l = []" "v = [a]"
      by (cases l; cases v) (auto simp: Suc_le_eq)
    then show ?thesis
    proof cases
      case 1
      with nt show ?thesis by (simp add: HasSuffix_NL_Nil)
    next
      case 2
      with nt show ?thesis by (simp add: HasSuffix_NL_one)
    next
      case 3
      with nt pre show ?thesis by (auto simp: HasSuffix_NL_one HasSuffix_NL_snoc dest: HasSuffix_NL_last)
    qed
  qed
  then show ?thesis using t' l_def by (metis append.assoc)
qed

lemma HasSuffix_after_blank:
  assumes "HasSuffix t NL"
  shows "HasSuffix (t @ v) NL \<longleftrightarrow> HasSuffix v NL \<or> v = [] \<or> v = ''\<newline>''"
proof (cases "2 \<le> length v")
  case True
  then have "v \<noteq> []" "v \<noteq> ''\<newline>''" by auto
  then show ?thesis using HasSuffix_NL_long[OF True, of t] by simp
next
  case False
  then consider "v = []" | a where "v = [a]"
    by (cases v) (auto simp: Suc_le_eq)
  then show ?thesis
  proof cases
    case 1
    with assms show ?thesis by simp
  next
    case 2
    with assms show ?thesis
      by (auto simp: HasSuffix_NL_one HasSuffix_NL_snoc dest: HasSuffix_NL_last)
  qed
qed

lemma Split_nl_Cons:
  "sentOf u (Split (CHR ''\<newline>'' # v) NL) = sentOf u (Split v NL) \<and>
   sentOf u (butlast (Split (CHR ''\<newline>'' # v) NL)) = sentOf u (butlast (Split v NL))"
proof (induction v)
  case Nil
  then show ?case by (simp add: HasPrefix_def processSSEEvent_Nil processSSEEvent_nl)
next
  case (Cons c v)
  obtain p ps where pp: "Split (c # v) NL = p # ps"
    using Split_nonempty[of "c # v" NL] by (cases "Split (c # v) NL") auto
  show ?case
  proof (cases "c = CHR ''\<newline>''")
    case True
    have "Split (CHR ''\<newline>'' # c # v) NL = [] # Split v NL"
      using True by (simp add: HasPrefix_def)
    then show ?thesis using Cons True Split_nonempty[of v NL]
      by (simp add: processSSEEvent_Nil)
  next
    case False
    have "Split (CHR ''\<newline>'' # c # v) NL = (CHR ''\<newline>'' # p) # ps"
      using False pp by (simp add: HasPrefix_def)
    then show ?thesis using pp by (simp add: processSSEEvent_nl)
  qed
qed

lemma sentOf_blank_piece:
  "l = [] \<or> l = ''\<newline>'' \<Longrightarrow> sentOf u [l] = []"
  by (auto simp: processSSEEvent_Nil processSSEEvent_nl1)

lemma Split_blank_prefix:
  assumes "l = [] \<or> l = ''\<newline>''"
  shows "sentOf u (Split (l @ v) NL) = sentOf u (Split v NL)"
    and "sentOf u (butlast (Split (l @ v) NL)) = sentOf u (butlast (Split v NL))"
  using assms Split_nl_Cons[of u v] by auto

lemma textOut_append:
  "textOut u (t @ v) = textOut u t @ textOut u (textRem t @ v)"
proof -
  define l where "l = last (Split t NL)"
  define X where "X = (if HasSuffix (t @ v) NL then sentOf u (Split (l @ v) NL)
                       else sentOf u (butlast (Split (l @ v) NL)))"
  have sa: "Split (t @ v) NL = butlast (Split t NL) @ Split (l @ v) NL"
    unfolding l_def by (rule Split_append)
  have ne: "Split (l @ v) NL \<noteq> []" by (rule Split_nonempty)
  have bl: "butlast (Split (t @ v) NL) = butlast (Split t NL) @ butlast (Split (l @ v) NL)"
    using sa ne by (simp add: butlast_append)
  have lhs: "textOut u (t @ v) = sentOf u (butlast (Split t NL)) @ X"
    unfolding X_def using sa bl by (simp add: textOut_def parseSSEEvents_def)
  show ?thesis
  proof (cases "HasSuffix t NL")
    case False
    have "HasSuffix (t @ v) NL = HasSuffix (l @ v) NL"
      unfolding l_def using False by (rule HasSuffix_last_piece)
    then have "X = textOut u (l @ v)"
      unfolding X_def by (simp add: textOut_def parseSSEEvents_def)
    moreover have "textRem t = l" using False by (simp add: textRem_def parseSSEEvents_def l_def)
    moreover have "textOut u t = sentOf u (butlast (Split t NL))"
      using False by (simp add: textOut_def parseSSEEvents_def)
    ultimately show ?thesis using lhs by simp
  next
    case True
    have lb: "l = [] \<or> l = ''\<newline>''" unfolding l_def using True by (rule last_piece_blank)
    have pt: "Split t NL = butlast (Split t NL) @ [l]"
      unfolding l_def using Split_nonempty[of t NL] by simp
    have "sentOf u (Split t NL) = sentOf u (butlast (Split t NL) @ [l])"
      using pt by simp
    then have st: "sentOf u (Split t NL) = sentOf u (butlast (Split t NL))"
      using sentOf_blank_piece[OF lb, of u] by (simp del: sentOf_simps(2))
    have hs: "HasSuffix (t @ v) NL \<longleftrightarrow> HasSuffix v NL \<or> v = [] \<or> v = ''\<newline>''"
      using True by (rule HasSuffix_after_blank)
    have tiny: "v = [] \<or> v = ''\<newline>'' \<Longrightarrow>
        sentOf u (Split v NL) = sentOf u (butlast (Split v NL))"
      by (auto simp: HasPrefix_def processSSEEvent_Nil processSSEEvent_nl1)
    have "X = (if HasSuffix v NL then sentOf u (Split v NL) else sentOf u (butlast (Split v NL)))"
      unfolding X_def using hs tiny Split_blank_prefix[OF lb, of u v] by auto
    then have "X = textOut u v" by (simp add: textOut_def parseSSEEvents_def)
    moreover have "textRem t = []" using True by (simp add: textRem_def)
    moreover have "textOut u t = sentOf u (butlast (Split t NL))"
      using True st by (simp add: textOut_def parseSSEEvents_def)
    ultimately show ?thesis using lhs by simp
  qed
qed

lemma textOut_textRem: "textOut u (textRem t) = []"
  using textOut_append[of u t "[]"] by simp

lemma textOut_Nil: "textOut u [] = []"
  by (simp add: textOut_def parseSSEEvents_def HasSuffix_NL_Nil)

lemma readLoop_chunks:
  "textOut u r = [] \<Longrightarrow>
   readLoop u r (map (\<lambda>c. (c, None)) chunks @ [(c, Some e)]) =
     textOut u (r @ concat chunks @ c) @ finalSend e"
proof (induction chunks arbitrary: r)
  case Nil
  show ?case
  proof (cases "c = []")
    case True
    with Nil show ?thesis by (simp add: finalSend_def split: read_error.splits)
  next
    case False
    then show ?thesis
      by (simp add: forEvents_text finalSend_def split: read_error.splits)
  qed
next
  case (Cons b chunks)
  show ?case
  proof (cases "b = []")
    case True
    with Cons show ?thesis by simp
  next
    case False
    have "readLoop u r (map (\<lambda>c. (c, None)) (b # chunks) @ [(c, Some e)]) =
          textOut u (r @ b) @ readLoop u (textRem (r @ b)) (map (\<lambda>c. (c, None)) chunks @ [(c, Some e)])"
      using False by (simp add: forEvents_text)
    also have "\<dots> = textOut u (r @ b) @ textOut u (textRem (r @ b) @ concat chunks @ c) @ finalSend e"
      using Cons.IH[OF textOut_textRem] by simp
    also have "\<dots> = textOut u ((r @ b) @ (concat chunks @ c)) @ finalSend e"
      using textOut_append[of u "r @ b" "concat chunks @ c"] by simp
    finally show ?thesis by simp
  qed
qed


lemma textOut_butlast: "textOut u t = sentOf u (butlast (parseSSEEvents t))"
proof (cases "HasSuffix t NL")
  case True
  have ne: "Split t NL \<noteq> []" by (rule Split_nonempty)
  from True have "sentOf u [last (Split t NL)] = []"
    using last_piece_blank[of t] sentOf_blank_piece[of "last (Split t NL)" u] by blast
  moreover have "Split t NL = butlast (Split t NL) @ [last (Split t NL)]"
    using ne by simp
  ultimately have "sentOf u (Split t NL) = sentOf u (butlast (Split t NL))"
    by (metis append_Nil2 sentOf_simps(3))
  with True show ?thesis by (simp add: textOut_def parseSSEEvents_def)
next
  case False
  then show ?thesis by (simp add: textOut_def)
qed

lemma Split_unframed: "\<not> Contains t NL \<Longrightarrow> Split t NL = [t]"
proof (induction t)
  case Nil
  show ?case by simp
next
  case (Cons c cs)
  then have "\<not> HasPrefix (c # cs) NL" and "\<not> Contains cs NL" by auto
  with Cons.IH show ?case by simp
qed

lemma HasPrefix_NL_append:
  "HasPrefix ((c # e) @ CHR ''\<newline>'' # x) NL \<longleftrightarrow> HasPrefix ((c # e) @ ''\<newline>'') NL"
  by (cases e) (auto simp: HasPrefix_def)

lemma Split_framed:
  "\<not> Contains (e @ ''\<newline>'') NL \<Longrightarrow> Split (e @ NL @ rest) NL = e # Split rest NL"
proof (induction e)
  case Nil
  show ?case by (simp add: HasPrefix_def)
next
  case (Cons c e)
  from Cons.prems have np: "\<not> HasPrefix ((c # e) @ ''\<newline>'') NL"
    and nc: "\<not> Contains (e @ ''\<newline>'') NL" by auto
  from np have "\<not> HasPrefix ((c # e) @ NL @ rest) NL"
    using HasPrefix_NL_append[of c e "CHR ''\<newline>'' # rest"] by simp
  then show ?case using Cons.IH[OF nc] by simp
qed

lemma Split_frames:
  "\<forall>e \<in> set events. \<not> Contains (e @ ''\<newline>'') NL \<Longrightarrow> \<not> Contains tail NL \<Longrightarrow>
   Split (concat (map (\<lambda>e. e @ NL) events) @ tail) NL = events @ [tail]"
proof (induction events)
  case Nil
  then show ?case by (simp add: Split_unframed)
next
  case (Cons e events)
  then show ?case using Split_framed[of e "concat (map (\<lambda>e. e @ NL) events) @ tail"] by simp
qed

lemma Contains_iff: "Contains s sub \<longleftrightarrow> (\<exists>a b. s = a @ sub @ b)"
proof (induction s)
  case Nil
  show ?case by simp
next
  case (Cons c cs)
  show ?case
  proof
    assume "Contains (c # cs) sub"
    then consider "HasPrefix (c # cs) sub" | "Contains cs sub" by auto
    then show "\<exists>a b. c # cs = a @ sub @ b"
    proof cases
      case 1
      then obtain r where "c # cs = sub @ r" using HasPrefix_iff by blast
      then have "c # cs = [] @ sub @ r" by simp
      then show ?thesis by blast
    next
      case 2
      then obtain a b where "cs = a @ sub @ b" using Cons.IH by blast
      then have "c # cs = (c # a) @ sub @ b" by simp
      then show ?thesis by blast
    qed
  next
    assume "\<exists>a b. c # cs = a @ sub @ b"
    then obtain a b where ab: "c # cs = a @ sub @ b" by blast
    show "Contains (c # cs) sub"
    proof (cases a)
      case Nil
      with ab have "HasPrefix (c # cs) sub" using HasPrefix_iff by auto
      then show ?thesis by simp
    next
      case (Cons x a')
      with ab have "cs = a' @ sub @ b" by simp
      then have "Contains cs sub" using Cons.IH by blast
      then show ?thesis by simp
    qed
  qed
qed

lemma Split_join:
  "sep \<noteq> [] \<Longrightarrow> concat (map (\<lambda>e. e @ sep) (butlast (Split t sep))) @ last (Split t sep) = t"
proof (induction t sep rule: Split.induct)
  case (1 sep)
  show ?case by simp
next
  case (2 c cs sep)
  show ?case
  proof (cases "HasPrefix (c # cs) sep")
    case True
    then have eq: "c # cs = sep @ drop (length sep) (c # cs)"
      unfolding HasPrefix_def by (metis append_take_drop_id)
    from True 2 have
      "concat (map (\<lambda>e. e @ sep) (butlast (Split (drop (length sep) (c # cs)) sep))) @
         last (Split (drop (length sep) (c # cs)) sep) = drop (length sep) (c # cs)"
      by simp
    with True 2 eq show ?thesis
      using Split_nonempty[of "drop (length sep) (c # cs)" sep] by simp
  next
    case False
    obtain p ps where p: "Split cs sep = p # ps"
      using Split_nonempty[of cs sep] by (cases "Split cs sep") auto
    from False 2 have ih:
      "concat (map (\<lambda>e. e @ sep) (butlast (Split cs sep))) @ last (Split cs sep) = cs"
      by simp
    from False p ih show ?thesis by (cases ps) auto
  qed
qed

lemma Split_piece_framed_aux:
  "sep = NL \<Longrightarrow> \<forall>e \<in> set (butlast (Split t sep)). \<not> Contains (e @ ''\<newline>'') sep"
proof (induction t sep rule: Split.induct)
  case (1 sep)
  show ?case by simp
next
  case (2 c cs sep)
  note sep = \<open>sep = NL\<close>
  show ?case
  proof (cases "HasPrefix (c # cs) sep")
    case True
    with 2 sep have ih:
      "\<forall>e \<in> set (butlast (Split (drop (length sep) (c # cs)) sep)). \<not> Contains (e @ ''\<newline>'') sep"
      by simp
    from True sep have sp: "Split (c # cs) sep = [] # Split (drop (length sep) (c # cs)) sep"
      by simp
    have "\<not> Contains ([] @ ''\<newline>'') sep" using sep by (simp add: HasPrefix_def)
    with sp ih show ?thesis
      using Split_nonempty[of "drop (length sep) (c # cs)" sep] by simp
  next
    case False
    obtain p ps where p: "Split cs sep = p # ps"
      using Split_nonempty[of cs sep] by (cases "Split cs sep") auto
    with False have sp: "Split (c # cs) sep = (c # p) # ps" by simp
    from False 2 sep have ih: "\<forall>e \<in> set (butlast (Split cs sep)). \<not> Contains (e @ ''\<newline>'') sep"
      by simp
    show ?thesis
    proof (cases ps)
      case Nil
      with sp show ?thesis by simp
    next
      case (Cons q qs)
      from Split_join[of sep cs] p Cons sep have "\<exists>x. cs = p @ NL @ x" by auto
      then obtain x where x: "cs = p @ NL @ x" ..
      from False x sep have "\<not> HasPrefix ((c # p) @ ''\<newline>'') NL"
        using HasPrefix_NL_append[of c p "CHR ''\<newline>'' # x"] by simp
      moreover from ih p Cons sep have "\<not> Contains (p @ ''\<newline>'') NL"
        and "\<forall>e \<in> set (butlast ps). \<not> Contains (e @ ''\<newline>'') NL" by auto
      ultimately show ?thesis using sp Cons sep by auto
    qed
  qed
qed

lemma Split_piece_framed:
  "\<forall>e \<in> set (butlast (Split t NL)). \<not> Contains (e @ ''\<newline>'') NL"
  using Split_piece_framed_aux[of NL t] by simp

lemma Split_last_unframed: "\<not> Contains (last (Split t NL)) NL"
  using Split_last_nosep[of NL t] Contains_iff[of "last (Split t NL)" NL] by auto


lemma readLoop_open:
  "readLoop u r (map (\<lambda>c. (c, None)) chunks @ [([], Some EOF)]) =
   readLoop u r (map (\<lambda>c. (c, None)) chunks)"
  by (induction chunks arbitrary: r) (simp_all add: Let_def split: prod.splits)

lemma readLoop_so_far:
  "readLoop u [] (map (\<lambda>c. (c, None)) chunks) = sentOf u (butlast (parseSSEEvents (concat chunks)))"
proof -
  have "readLoop u [] (map (\<lambda>c. (c, None)) chunks @ [([], Some EOF)]) =
          textOut u ([] @ concat chunks @ []) @ finalSend EOF"
    by (rule readLoop_chunks) (rule textOut_Nil)
  then show ?thesis
    by (simp add: readLoop_open textOut_butlast finalSend_def)
qed

text \<open>
  C5. However the upstream bytes are cut into reads, the relay sends the same events in
  the same order as when they arrive in one read. What it sends is what
  \<open>processSSEEvent\<close> returns for each piece of the whole stream that a blank line ends, in
  order; the piece after the last blank line waits in the remainder and is not sent. So
  it is while the stream is open: after any number of reads, what has been sent is what
  the pieces that a blank line has ended so far send. The pieces are the framing of the
  stream: the stream is its pieces, each followed by a blank line, and then the last
  piece; a piece that a blank line ends has no blank line in it and does not end with a
  newline, and the last piece has no blank line in it. Any such framing of the stream is
  the one the relay uses. The stream ends with the read that returns an error (\<open>io.EOF\<close>
  or another one), which may carry bytes too.
\<close>

theorem relay_split_invariant:
  "readLoop unmarshal [] (map (\<lambda>chunk. (chunk, None)) chunks @ [(lastChunk, Some err)]) =
     readLoop unmarshal [] [(concat chunks @ lastChunk, Some err)]
   \<and> readLoop unmarshal [] (map (\<lambda>chunk. (chunk, None)) chunks @ [(lastChunk, Some err)]) =
       sentOf unmarshal (butlast (parseSSEEvents (concat chunks @ lastChunk))) @ finalSend err
   \<and> readLoop unmarshal [] (map (\<lambda>chunk. (chunk, None)) chunks) =
       sentOf unmarshal (butlast (parseSSEEvents (concat chunks)))
   \<and> concat chunks @ lastChunk =
       concat (map (\<lambda>event. event @ NL) (butlast (parseSSEEvents (concat chunks @ lastChunk)))) @
       last (parseSSEEvents (concat chunks @ lastChunk))
   \<and> (\<forall>event \<in> set (butlast (parseSSEEvents (concat chunks @ lastChunk))).
         \<not> Contains (event @ ''\<newline>'') NL)
   \<and> \<not> Contains (last (parseSSEEvents (concat chunks @ lastChunk))) NL
   \<and> (concat chunks @ lastChunk = concat (map (\<lambda>event. event @ NL) events) @ tail
        \<and> (\<forall>event \<in> set events. \<not> Contains (event @ ''\<newline>'') NL)
        \<and> \<not> Contains tail NL \<longrightarrow>
      butlast (parseSSEEvents (concat chunks @ lastChunk)) = events
      \<and> readLoop unmarshal [] (map (\<lambda>chunk. (chunk, None)) chunks @ [(lastChunk, Some err)]) =
          sentOf unmarshal events @ finalSend err)"
proof -
  have a: "readLoop unmarshal [] (map (\<lambda>chunk. (chunk, None)) chunks @ [(lastChunk, Some err)]) =
       textOut unmarshal (concat chunks @ lastChunk) @ finalSend err"
    using readLoop_chunks[of unmarshal "[]" chunks lastChunk err] by (simp add: textOut_Nil)
  have b: "readLoop unmarshal [] [(concat chunks @ lastChunk, Some err)] =
       textOut unmarshal (concat chunks @ lastChunk) @ finalSend err"
    using readLoop_chunks[of unmarshal "[]" "[]" "concat chunks @ lastChunk" err]
    by (simp add: textOut_Nil)
  have c: "butlast (parseSSEEvents (concat chunks @ lastChunk)) = events"
    if "concat chunks @ lastChunk = concat (map (\<lambda>event. event @ NL) events) @ tail"
      and "\<forall>event \<in> set events. \<not> Contains (event @ ''\<newline>'') NL"
      and "\<not> Contains tail NL"
    using that Split_frames[of events tail] by (simp add: parseSSEEvents_def)
  have d: "concat chunks @ lastChunk =
       concat (map (\<lambda>event. event @ NL) (butlast (parseSSEEvents (concat chunks @ lastChunk)))) @
       last (parseSSEEvents (concat chunks @ lastChunk))"
    using Split_join[of NL "concat chunks @ lastChunk"] by (simp add: parseSSEEvents_def)
  have e: "\<forall>event \<in> set (butlast (parseSSEEvents (concat chunks @ lastChunk))).
         \<not> Contains (event @ ''\<newline>'') NL"
    using Split_piece_framed[of "concat chunks @ lastChunk"] by (simp add: parseSSEEvents_def)
  have f: "\<not> Contains (last (parseSSEEvents (concat chunks @ lastChunk))) NL"
    using Split_last_unframed[of "concat chunks @ lastChunk"] by (simp add: parseSSEEvents_def)
  from a b have 1: "readLoop unmarshal [] (map (\<lambda>chunk. (chunk, None)) chunks @ [(lastChunk, Some err)]) =
     readLoop unmarshal [] [(concat chunks @ lastChunk, Some err)]" by simp
  from a have 2: "readLoop unmarshal [] (map (\<lambda>chunk. (chunk, None)) chunks @ [(lastChunk, Some err)]) =
       sentOf unmarshal (butlast (parseSSEEvents (concat chunks @ lastChunk))) @ finalSend err"
    by (simp add: textOut_butlast)
  from 2 c have 3: "butlast (parseSSEEvents (concat chunks @ lastChunk)) = events
      \<and> readLoop unmarshal [] (map (\<lambda>chunk. (chunk, None)) chunks @ [(lastChunk, Some err)]) =
          sentOf unmarshal events @ finalSend err"
    if "concat chunks @ lastChunk = concat (map (\<lambda>event. event @ NL) events) @ tail"
      and "\<forall>event \<in> set events. \<not> Contains (event @ ''\<newline>'') NL"
      and "\<not> Contains tail NL"
    using that by simp
  have g: "readLoop unmarshal [] (map (\<lambda>chunk. (chunk, None)) chunks) =
       sentOf unmarshal (butlast (parseSSEEvents (concat chunks)))"
    by (rule readLoop_so_far)
  from 1 2 g d e f 3 show ?thesis by blast
qed

lemma exampleStream_events:
  "\<forall>event \<in> set [exampleDelta, exampleStop]. \<not> Contains (event @ ''\<newline>'') NL"
  "\<not> Contains exampleTail NL"
  by code_simp+

lemma exampleStream_sent:
  \<open>sentOf exampleStreamDecoder [exampleDelta, exampleStop] =
     [''data: {"type":"content_block_delta","delta":{"text":"Hi"}}\<newline>\<newline>'',
      ''data: {"type":"usage_update","usage":{"input_tokens":12,"output_tokens":34,"total_tokens":46}}\<newline>\<newline>'']\<close>
  by code_simp

theorem relay_split_invariant_witness:
  \<open>readLoop exampleStreamDecoder []
     [(take 40 exampleStream, None), (take 46 (drop 40 exampleStream), None),
      (drop 86 exampleStream, Some EOF)] =
     [''data: {"type":"content_block_delta","delta":{"text":"Hi"}}\<newline>\<newline>'',
      ''data: {"type":"usage_update","usage":{"input_tokens":12,"output_tokens":34,"total_tokens":46}}\<newline>\<newline>'']
   \<and> readLoop exampleStreamDecoder [] [(exampleStream, Some EOF)] =
     [''data: {"type":"content_block_delta","delta":{"text":"Hi"}}\<newline>\<newline>'',
      ''data: {"type":"usage_update","usage":{"input_tokens":12,"output_tokens":34,"total_tokens":46}}\<newline>\<newline>'']\<close>
proof -
  have cut: "concat [take 40 exampleStream, take 46 (drop 40 exampleStream)] @ drop 86 exampleStream =
             exampleStream"
    by (simp add: take_add[of 40 46 exampleStream, symmetric])
  have frames: "exampleStream = concat (map (\<lambda>event. event @ NL) [exampleDelta, exampleStop]) @ exampleTail"
    by (simp add: exampleStream_def)
  note t = relay_split_invariant
      [where unmarshal = exampleStreamDecoder
         and chunks = "[take 40 exampleStream, take 46 (drop 40 exampleStream)]"
         and lastChunk = "drop 86 exampleStream" and err = EOF
         and events = "[exampleDelta, exampleStop]" and tail = exampleTail]
  from cut frames have conc:
    "concat [take 40 exampleStream, take 46 (drop 40 exampleStream)] @ drop 86 exampleStream =
       concat (map (\<lambda>event. event @ NL) [exampleDelta, exampleStop]) @ exampleTail"
    by (simp only:)
  from t conc exampleStream_events
  have "readLoop exampleStreamDecoder []
          (map (\<lambda>chunk. (chunk, None)) [take 40 exampleStream, take 46 (drop 40 exampleStream)] @
           [(drop 86 exampleStream, Some EOF)]) =
        sentOf exampleStreamDecoder [exampleDelta, exampleStop] @ finalSend EOF"
    and "readLoop exampleStreamDecoder []
          (map (\<lambda>chunk. (chunk, None)) [take 40 exampleStream, take 46 (drop 40 exampleStream)] @
           [(drop 86 exampleStream, Some EOF)]) =
        readLoop exampleStreamDecoder []
          [(concat [take 40 exampleStream, take 46 (drop 40 exampleStream)] @ drop 86 exampleStream,
            Some EOF)]"
    by blast+
  with cut exampleStream_sent show ?thesis
    by (simp add: finalSend_def del: readLoop.simps)
qed


section \<open>Properties of the usage capture\<close>

lemma processLines_eq:
  "processLines u lines =
     (case firstPayload lines of
        None \<Rightarrow> None
      | Some data \<Rightarrow>
          Some (case terminalUsage u data of
                  Some usage \<Rightarrow> usageFrame usage
                | None \<Rightarrow> ''data: '' @ data @ NL))"
  by (induction lines)
     (auto simp: terminalUsage_def usageFrame_def Let_def split: option.splits)

lemma digitChar_not_nl: "d < 10 \<Longrightarrow> digitChar d \<noteq> CHR ''\<newline>''"
proof
  assume d: "d < 10" and "digitChar d = CHR ''\<newline>''"
  then have "of_char (char_of (48 + d) :: char) = (of_char (CHR ''\<newline>'') :: nat)"
    by (simp add: digitChar_def)
  with d show False by simp
qed

lemma natDigits_no_nl: "CHR ''\<newline>'' \<notin> set (natDigits n)"
proof (induction n rule: natDigits.induct)
  case (1 n)
  show ?case
  proof (cases "n < 10")
    case True
    then show ?thesis using digitChar_not_nl[of n] by (subst natDigits.simps) auto
  next
    case False
    have "n mod 10 < 10" by simp
    then have "digitChar (n mod 10) \<noteq> CHR ''\<newline>''" by (rule digitChar_not_nl)
    with False 1 show ?thesis by (subst natDigits.simps) auto
  qed
qed

lemma Itoa_no_nl: "CHR ''\<newline>'' \<notin> set (Itoa i)"
  by (simp add: Itoa_def natDigits_no_nl)

lemma marshalUsageEvent_no_nl: "CHR ''\<newline>'' \<notin> set (marshalUsageEvent i o' t)"
  by (simp add: marshalUsageEvent_def Itoa_no_nl)

lemma Split_no_sep1: "c \<notin> set s \<Longrightarrow> Split s [c] = [s]"
  by (induction s) (auto simp: HasPrefix_def)

lemma Contains_HasPrefix: "HasPrefix s sub \<Longrightarrow> Contains s sub"
  by (cases s) (auto simp: HasPrefix_def)

lemma Contains_append_left: "Contains s sub \<Longrightarrow> Contains (a @ s) sub"
  by (induction a) auto

lemma Contains_marshal: "Contains (''data: '' @ marshalUsageEvent i o' t @ rest) ''usage_update''"
proof -
  define x where "x = drop 27 (''data: '' @ marshalUsageEvent i o' t @ rest)"
  have eq: "''data: '' @ marshalUsageEvent i o' t @ rest =
            ''data: {\"type\":\"'' @ (''usage_update'' @ x)"
    by (simp add: marshalUsageEvent_def x_def)
  have "HasPrefix (''usage_update'' @ x) ''usage_update''"
    by (simp add: HasPrefix_def)
  then have "Contains (''usage_update'' @ x) ''usage_update''"
    by (rule Contains_HasPrefix)
  then have "Contains (''data: {\"type\":\"'' @ (''usage_update'' @ x)) ''usage_update''"
    by (rule Contains_append_left)
  then show ?thesis by (simp only: eq)
qed

lemma trimLeading_None: "leadingRune runes s = None \<Longrightarrow> trimLeading runes s = s"
  by (subst trimLeading.simps) simp

lemma trimLeading_Some:
  "leadingRune runes s = Some r \<Longrightarrow> trimLeading runes s = trimLeading runes (drop (length r) s)"
  by (subst trimLeading.simps) simp

lemma leadingRune_rev_nl:
  "leadingRune (map rev spaceRunes) (CHR ''\<newline>'' # s) = Some ''\<newline>''"
  by (simp add: leadingRune_def spaceRunes_def HasPrefix_def)

lemma leadingRune_d: "leadingRune spaceRunes (CHR ''d'' # s) = None"
  by (simp add: leadingRune_def spaceRunes_def HasPrefix_def)

lemma leadingRune_rev_brace: "leadingRune (map rev spaceRunes) (CHR ''}'' # s) = None"
  by (simp add: leadingRune_def spaceRunes_def HasPrefix_def)

lemma TrimSpace_usageFrame:
  "TrimSpace (''data: '' @ marshalUsageEvent i o' t @ NL) = ''data: '' @ marshalUsageEvent i o' t"
proof -
  define body where "body = rev (butlast (''data: '' @ marshalUsageEvent i o' t))"
  have r: "rev (''data: '' @ marshalUsageEvent i o' t) = CHR ''}'' # body"
    by (simp add: body_def marshalUsageEvent_def butlast_append)
  have 1: "trimLeading spaceRunes (''data: '' @ marshalUsageEvent i o' t @ NL) =
             ''data: '' @ marshalUsageEvent i o' t @ NL"
    using leadingRune_d by (simp add: trimLeading_None)
  have "trimLeading (map rev spaceRunes) (rev (''data: '' @ marshalUsageEvent i o' t @ NL)) =
        trimLeading (map rev spaceRunes) (CHR ''}'' # body)"
    using r by (simp add: trimLeading_Some[OF leadingRune_rev_nl])
  also have "\<dots> = CHR ''}'' # body"
    using leadingRune_rev_brace by (rule trimLeading_None)
  finally have "trimLeading (map rev spaceRunes) (rev (''data: '' @ marshalUsageEvent i o' t @ NL)) =
        rev (''data: '' @ marshalUsageEvent i o' t)"
    using r by simp
  with 1 show ?thesis unfolding TrimSpace_def by (simp only: rev_rev_ident)
qed

lemma extract_usageFrame:
  assumes "dec (marshalUsageEvent i o' t) =
             Some \<lparr>ue_Type = ''usage_update'', ue_InputTokens = i, ue_OutputTokens = o',
                    ue_TotalTokens = t\<rparr>"
  shows "extractUsageFromSSE dec (''data: '' @ marshalUsageEvent i o' t @ NL) =
           Some \<lparr>InputTokens = i, OutputTokens = o', TotalTokens = t,
                  PromptTokens = i, CompletionTokens = o'\<rparr>"
proof -
  have nl: "CHR ''\<newline>'' \<notin> set (''data: '' @ marshalUsageEvent i o' t)"
    using marshalUsageEvent_no_nl[of i o' t] by simp
  have sp: "Split (''data: '' @ marshalUsageEvent i o' t) ''\<newline>'' = [''data: '' @ marshalUsageEvent i o' t]"
    using nl by (rule Split_no_sep1)
  have pre: "HasPrefix (''data: '' @ marshalUsageEvent i o' t) ''data: ''"
    by (simp add: HasPrefix_def)
  have tp: "TrimPrefix (''data: '' @ marshalUsageEvent i o' t) ''data: '' = marshalUsageEvent i o' t"
    using pre by (simp add: TrimPrefix_def)
  show ?thesis
    unfolding extractUsageFromSSE_def
    using Contains_marshal[of i o' t NL] TrimSpace_usageFrame[of i o' t] sp pre tp assms
    by (simp del: Contains.simps append.simps append_Cons)
qed

lemma processSSEEvent_terminal:
  assumes "firstPayload (Split (TrimSpace ev) ''\<newline>'') = Some data"
    and "terminalUsage u data = Some su"
  shows "processSSEEvent u ev = Some (usageFrame su)"
  using assms by (simp add: processSSEEvent_def processLines_eq)

text \<open>
  C7. The usage of every response that \<open>TransformResponse\<close> returns has its total equal to
  input plus output, and so has the usage that the service captures from the frame the
  adapter sends for a terminal usage summary, given that \<open>json.Unmarshal\<close> reads back
  what \<open>json.Marshal\<close> wrote for that usage. The counts are Go \<open>int\<close>s, 64-bit words:
  the sum is the machine sum.
\<close>

theorem usage_total_is_sum:
  assumes "dec (marshalUsageEvent (su_InputTokens su) (su_OutputTokens su)
                  (su_InputTokens su + su_OutputTokens su)) =
             Some \<lparr>ue_Type = ''usage_update'', ue_InputTokens = su_InputTokens su,
                    ue_OutputTokens = su_OutputTokens su,
                    ue_TotalTokens = su_InputTokens su + su_OutputTokens su\<rparr>"
  shows "(\<forall>response. TransformResponse now resp = Inr response \<longrightarrow>
            TotalTokens (resp_Usage response) =
              InputTokens (resp_Usage response) + OutputTokens (resp_Usage response))
       \<and> (\<forall>ev data. firstPayload (Split (TrimSpace ev) ''\<newline>'') = Some data
              \<and> terminalUsage u data = Some su \<longrightarrow>
            (\<exists>frame usage. processSSEEvent u ev = Some frame
               \<and> extractUsageFromSSE dec frame = Some usage
               \<and> InputTokens usage = su_InputTokens su
               \<and> OutputTokens usage = su_OutputTokens su
               \<and> TotalTokens usage = InputTokens usage + OutputTokens usage))"
proof (intro conjI allI impI)
  fix response
  assume "TransformResponse now resp = Inr response"
  then show "TotalTokens (resp_Usage response) =
      InputTokens (resp_Usage response) + OutputTokens (resp_Usage response)"
    by (auto simp: TransformResponse_def Let_def split: option.splits list.splits)
next
  fix ev data
  assume a: "firstPayload (Split (TrimSpace ev) ''\<newline>'') = Some data \<and> terminalUsage u data = Some su"
  then have "processSSEEvent u ev = Some (usageFrame su)"
    using processSSEEvent_terminal by blast
  moreover have "extractUsageFromSSE dec (usageFrame su) =
      Some \<lparr>InputTokens = su_InputTokens su, OutputTokens = su_OutputTokens su,
             TotalTokens = su_InputTokens su + su_OutputTokens su,
             PromptTokens = su_InputTokens su, CompletionTokens = su_OutputTokens su\<rparr>"
    unfolding usageFrame_def using assms by (rule extract_usageFrame)
  ultimately show "\<exists>frame usage. processSSEEvent u ev = Some frame
               \<and> extractUsageFromSSE dec frame = Some usage
               \<and> InputTokens usage = su_InputTokens su
               \<and> OutputTokens usage = su_OutputTokens su
               \<and> TotalTokens usage = InputTokens usage + OutputTokens usage"
    by simp
qed

lemma exampleUsage_roundtrip:
  "exampleUsageDecoder
     (marshalUsageEvent (su_InputTokens exampleUsage) (su_OutputTokens exampleUsage)
        (su_InputTokens exampleUsage + su_OutputTokens exampleUsage)) =
   Some \<lparr>ue_Type = ''usage_update'', ue_InputTokens = su_InputTokens exampleUsage,
          ue_OutputTokens = su_OutputTokens exampleUsage,
          ue_TotalTokens = su_InputTokens exampleUsage + su_OutputTokens exampleUsage\<rparr>"
  by code_simp

lemma exampleStop_payload:
  \<open>firstPayload (Split (TrimSpace exampleStop) ''\<newline>'') =
     Some ''{"type":"message_stop","message":{"usage":{"input_tokens":12,"output_tokens":34}}}''\<close>
  by code_simp

lemma exampleStop_usage:
  \<open>terminalUsage exampleStreamDecoder
      ''{"type":"message_stop","message":{"usage":{"input_tokens":12,"output_tokens":34}}}'' =
     Some exampleUsage\<close>
  by code_simp

theorem usage_total_is_sum_witness:
  "(\<exists>response. TransformResponse 0 (Some exampleAnthropicResponse) = Inr response
      \<and> TotalTokens (resp_Usage response) = 46)
   \<and> (\<exists>frame usage. processSSEEvent exampleStreamDecoder exampleStop = Some frame
      \<and> extractUsageFromSSE exampleUsageDecoder frame = Some usage
      \<and> TotalTokens usage = 46)"
proof -
  note th = usage_total_is_sum[where dec = exampleUsageDecoder and su = exampleUsage
      and now = 0 and resp = "Some exampleAnthropicResponse" and u = exampleStreamDecoder,
      OF exampleUsage_roundtrip]
  obtain response where r: "TransformResponse 0 (Some exampleAnthropicResponse) = Inr response"
    by (simp add: TransformResponse_def exampleAnthropicResponse_def)
  with th have "TotalTokens (resp_Usage response) =
      InputTokens (resp_Usage response) + OutputTokens (resp_Usage response)" by blast
  moreover from r have "InputTokens (resp_Usage response) = 12" "OutputTokens (resp_Usage response) = 34"
    by (auto simp: TransformResponse_def exampleAnthropicResponse_def)
  ultimately have 1: "TotalTokens (resp_Usage response) = 46" by simp
  from th exampleStop_payload exampleStop_usage
  obtain frame usage where f: "processSSEEvent exampleStreamDecoder exampleStop = Some frame"
      "extractUsageFromSSE exampleUsageDecoder frame = Some usage"
      "InputTokens usage = su_InputTokens exampleUsage"
      "OutputTokens usage = su_OutputTokens exampleUsage"
      "TotalTokens usage = InputTokens usage + OutputTokens usage"
    by blast
  then have "TotalTokens usage = 46" by (simp add: exampleUsage_def)
  with r 1 f show ?thesis by blast
qed


section \<open>Properties of the event relay\<close>

lemma lastUsage_simps:
  "lastUsage dec [] fu = fu"
  "extractUsageFromSSE dec d = Some usage \<Longrightarrow> lastUsage dec (d # items) fu = lastUsage dec items (Some usage)"
  "extractUsageFromSSE dec d = None \<Longrightarrow> lastUsage dec (d # items) fu = lastUsage dec items fu"
  by (auto simp: lastUsage_def List.map_filter_simps split: list.splits)

lemma forwardBlocking_all:
  "forwardBlocking dec None items fu =
     (filter (\<lambda>d. extractUsageFromSSE dec d = None) items, RangeDone (lastUsage dec items fu))"
  by (induction items arbitrary: fu) (auto simp: lastUsage_simps split: option.splits)

lemma processSSEEvent_single_line:
  assumes "TrimSpace (''data: '' @ data) = ''data: '' @ data"
    and "CHR ''\<newline>'' \<notin> set data" and "data \<noteq> []" and "data \<noteq> ''[DONE]''"
    and "terminalUsage u data = None"
  shows "processSSEEvent u (''data: '' @ data) = Some ((''data: '' @ data) @ NL)"
proof -
  have "CHR ''\<newline>'' \<notin> set (''data: '' @ data)" using assms(2) by simp
  then have "Split (''data: '' @ data) ''\<newline>'' = [''data: '' @ data]" by (rule Split_no_sep1)
  moreover have "HasPrefix (''data: '' @ data) ''data: ''" by (simp add: HasPrefix_def)
  moreover have "TrimPrefix (''data: '' @ data) ''data: '' = data"
    by (simp add: TrimPrefix_def HasPrefix_def)
  ultimately show ?thesis
    using assms unfolding processSSEEvent_def processLines_eq
    by (simp del: append.simps append_Cons)
qed

lemma extractLines_Some_iff:
  "extractLines dec lines \<noteq> None \<longleftrightarrow>
     (\<exists>line \<in> set lines. HasPrefix line ''data: ''
        \<and> (\<exists>e. dec (TrimPrefix line ''data: '') = Some e \<and> ue_Type e = ''usage_update''))"
  by (induction lines) (auto split: option.splits)

lemma extractUsageFromSSE_recognised:
  "extractUsageFromSSE dec d \<noteq> None \<longleftrightarrow>
     Contains d ''usage_update''
     \<and> (\<exists>line \<in> set (Split (TrimSpace d) ''\<newline>''). HasPrefix line ''data: ''
          \<and> (\<exists>e. dec (TrimPrefix line ''data: '') = Some e \<and> ue_Type e = ''usage_update''))"
  using extractLines_Some_iff[of dec "Split (TrimSpace d) ''\<newline>''"]
  by (simp add: extractUsageFromSSE_def)

lemma forwardBlocking_budget:
  "forwardBlocking dec (Some b) items fu =
     (if length (filter (\<lambda>d. extractUsageFromSSE dec d = None) items) \<le> b
      then (filter (\<lambda>d. extractUsageFromSSE dec d = None) items, RangeDone (lastUsage dec items fu))
      else (take b (filter (\<lambda>d. extractUsageFromSSE dec d = None) items), BlockedOnSend))"
proof (induction items arbitrary: b fu)
  case Nil
  show ?case by (simp add: lastUsage_simps)
next
  case (Cons x items)
  show ?case
  proof (cases "extractUsageFromSSE dec x")
    case None
    then show ?thesis
      using Cons[of _ fu] by (cases b) (simp_all add: lastUsage_simps)
  next
    case (Some usage)
    then show ?thesis using Cons[of b "Some usage"] by (simp add: lastUsage_simps)
  qed
qed

lemma forwardSelect_room:
  "forwardSelect dec taken i queued items fu =
     (if sendsWithRoom taken i queued (length (filter (\<lambda>d. extractUsageFromSSE dec d = None) items)) =
           length (filter (\<lambda>d. extractUsageFromSSE dec d = None) items)
      then (filter (\<lambda>d. extractUsageFromSSE dec d = None) items, RangeDone (lastUsage dec items fu))
      else (take (sendsWithRoom taken i queued
                    (length (filter (\<lambda>d. extractUsageFromSSE dec d = None) items)))
              (filter (\<lambda>d. extractUsageFromSSE dec d = None) items), ReturnedEarly))"
proof (induction items arbitrary: i queued fu)
  case Nil
  show ?case by (simp add: lastUsage_simps)
next
  case (Cons x items)
  show ?case
  proof (cases "extractUsageFromSSE dec x")
    case None
    then show ?thesis
      using Cons[of "Suc i" "Suc (queued - taken i)" fu] by (simp add: lastUsage_simps Let_def)
  next
    case (Some usage)
    then show ?thesis using Cons[of i queued "Some usage"] by (simp add: lastUsage_simps)
  qed
qed

lemma sendsWithRoom_le: "sendsWithRoom taken i queued n \<le> n"
  by (induction n arbitrary: i queued) (simp_all add: Let_def)

lemma sendsWithRoom_keeps_up:
  "queued \<le> wrappedChanCap \<Longrightarrow> \<forall>j. 1 \<le> taken j \<Longrightarrow> sendsWithRoom taken i queued n = n"
proof (induction n arbitrary: i queued)
  case 0
  show ?case by simp
next
  case (Suc n)
  from Suc.prems have 1: "1 \<le> taken i" by simp
  have cap: "0 < wrappedChanCap" by (simp add: wrappedChanCap_def)
  from 1 Suc.prems(1) cap have lt: "queued - taken i < wrappedChanCap" by arith
  then have "Suc (queued - taken i) \<le> wrappedChanCap" by simp
  from Suc.IH[OF this Suc.prems(2)] lt show ?case by (simp add: Let_def)
qed

lemma sendsWithRoom_fits:
  "queued + n \<le> wrappedChanCap \<Longrightarrow> sendsWithRoom taken i queued n = n"
proof (induction n arbitrary: i queued)
  case 0
  show ?case by simp
next
  case (Suc n)
  then have lt: "queued - taken i < wrappedChanCap" by arith
  from Suc.prems have "Suc (queued - taken i) + n \<le> wrappedChanCap" by arith
  from Suc.IH[OF this] lt show ?case by (simp add: Let_def)
qed

text \<open>
  C1, as the code has it. The adapter inspects an event through its first \<open>data: \<close> line
  whose payload is neither empty nor \<open>[DONE]\<close>. An event without such a line sends
  nothing. When the payload is the terminal usage summary, the adapter sends a
  \<open>usage_update\<close> frame instead; the service captures its usage and forwards nothing
  for it. Otherwise the adapter sends the payload alone in a frame \<open>data: ... \<close> with a
  blank line, which is the event itself, terminator included, when the event is that
  single line.

  The service recognises an item as a usage event when the item contains \<open>usage_update\<close>
  and one of its \<open>data: \<close> lines decodes, as the usage event struct, with the type
  \<open>usage_update\<close>. It keeps the usage of such an item and sends every other item, unchanged
  and in order, for as long as the sends go through: all of them, and the loop ends with
  the usage of the last usage event, when the client receives until the channel is
  closed; with the blocking send, when the client receives \<open>received\<close> items only, the
  first \<open>received + 100\<close> of them, and the loop is blocked for ever if there are more; with
  the \<open>select\<close>, those before the first send that finds the buffer full, where the loop
  returns. With the \<open>select\<close> every send finds room when the client receives at least one
  item between two sends, and when the buffer has room for all the items.
\<close>

theorem stream_event_relay:
  "processSSEEvent u ev =
     (case firstPayload (Split (TrimSpace ev) ''\<newline>'') of
        None \<Rightarrow> None
      | Some data \<Rightarrow>
          Some (case terminalUsage u data of
                  Some usage \<Rightarrow> usageFrame usage
                | None \<Rightarrow> ''data: '' @ data @ NL))
   \<and> (TrimSpace (''data: '' @ payload) = ''data: '' @ payload
        \<and> CHR ''\<newline>'' \<notin> set payload \<and> payload \<noteq> [] \<and> payload \<noteq> ''[DONE]''
        \<and> terminalUsage u payload = None \<longrightarrow>
      processSSEEvent u (''data: '' @ payload) = Some ((''data: '' @ payload) @ NL))
   \<and> (extractUsageFromSSE dec d \<noteq> None \<longleftrightarrow>
        Contains d ''usage_update''
        \<and> (\<exists>line \<in> set (Split (TrimSpace d) ''\<newline>''). HasPrefix line ''data: ''
             \<and> (\<exists>e. dec (TrimPrefix line ''data: '') = Some e \<and> ue_Type e = ''usage_update'')))
   \<and> forwardBlocking dec None items fu =
        (filter (\<lambda>d. extractUsageFromSSE dec d = None) items, RangeDone (lastUsage dec items fu))
   \<and> forwardBlocking dec (blockingBudget (Some received)) items fu =
        (if length (filter (\<lambda>d. extractUsageFromSSE dec d = None) items) \<le> received + wrappedChanCap
         then (filter (\<lambda>d. extractUsageFromSSE dec d = None) items,
               RangeDone (lastUsage dec items fu))
         else (take (received + wrappedChanCap) (filter (\<lambda>d. extractUsageFromSSE dec d = None) items),
               BlockedOnSend))
   \<and> forwardSelect dec taken i queued items fu =
        (if sendsWithRoom taken i queued
              (length (filter (\<lambda>d. extractUsageFromSSE dec d = None) items)) =
            length (filter (\<lambda>d. extractUsageFromSSE dec d = None) items)
         then (filter (\<lambda>d. extractUsageFromSSE dec d = None) items,
               RangeDone (lastUsage dec items fu))
         else (take (sendsWithRoom taken i queued
                       (length (filter (\<lambda>d. extractUsageFromSSE dec d = None) items)))
                 (filter (\<lambda>d. extractUsageFromSSE dec d = None) items),
               ReturnedEarly))
   \<and> sendsWithRoom taken i queued n \<le> n
   \<and> (queued \<le> wrappedChanCap \<and> (\<forall>j. 1 \<le> taken j) \<longrightarrow> sendsWithRoom taken i queued n = n)
   \<and> (queued + n \<le> wrappedChanCap \<longrightarrow> sendsWithRoom taken i queued n = n)
   \<and> (dec (marshalUsageEvent (su_InputTokens su) (su_OutputTokens su)
               (su_InputTokens su + su_OutputTokens su)) =
         Some \<lparr>ue_Type = ''usage_update'', ue_InputTokens = su_InputTokens su,
                ue_OutputTokens = su_OutputTokens su,
                ue_TotalTokens = su_InputTokens su + su_OutputTokens su\<rparr> \<longrightarrow>
       (\<exists>usage. extractUsageFromSSE dec (usageFrame su) = Some usage
          \<and> InputTokens usage = su_InputTokens su \<and> OutputTokens usage = su_OutputTokens su
          \<and> forwardBlocking dec budget (usageFrame su # items) fu =
              forwardBlocking dec budget items (Some usage)
          \<and> forwardSelect dec taken i queued (usageFrame su # items) fu =
              forwardSelect dec taken i queued items (Some usage)))"
proof (intro conjI)
  show "processSSEEvent u ev =
     (case firstPayload (Split (TrimSpace ev) ''\<newline>'') of
        None \<Rightarrow> None
      | Some data \<Rightarrow>
          Some (case terminalUsage u data of
                  Some usage \<Rightarrow> usageFrame usage
                | None \<Rightarrow> ''data: '' @ data @ NL))"
    by (simp add: processSSEEvent_def processLines_eq)
next
  show "TrimSpace (''data: '' @ payload) = ''data: '' @ payload
        \<and> CHR ''\<newline>'' \<notin> set payload \<and> payload \<noteq> [] \<and> payload \<noteq> ''[DONE]''
        \<and> terminalUsage u payload = None \<longrightarrow>
      processSSEEvent u (''data: '' @ payload) = Some ((''data: '' @ payload) @ NL)"
    using processSSEEvent_single_line[of payload u] by blast
next
  show "extractUsageFromSSE dec d \<noteq> None \<longleftrightarrow>
        Contains d ''usage_update''
        \<and> (\<exists>line \<in> set (Split (TrimSpace d) ''\<newline>''). HasPrefix line ''data: ''
             \<and> (\<exists>e. dec (TrimPrefix line ''data: '') = Some e \<and> ue_Type e = ''usage_update''))"
    by (rule extractUsageFromSSE_recognised)
next
  show "forwardBlocking dec None items fu =
        (filter (\<lambda>d. extractUsageFromSSE dec d = None) items, RangeDone (lastUsage dec items fu))"
    by (rule forwardBlocking_all)
next
  show "forwardBlocking dec (blockingBudget (Some received)) items fu =
        (if length (filter (\<lambda>d. extractUsageFromSSE dec d = None) items) \<le> received + wrappedChanCap
         then (filter (\<lambda>d. extractUsageFromSSE dec d = None) items,
               RangeDone (lastUsage dec items fu))
         else (take (received + wrappedChanCap) (filter (\<lambda>d. extractUsageFromSSE dec d = None) items),
               BlockedOnSend))"
    using forwardBlocking_budget[of dec "received + wrappedChanCap" items fu]
    by (simp add: blockingBudget_def)
next
  show "forwardSelect dec taken i queued items fu =
        (if sendsWithRoom taken i queued
              (length (filter (\<lambda>d. extractUsageFromSSE dec d = None) items)) =
            length (filter (\<lambda>d. extractUsageFromSSE dec d = None) items)
         then (filter (\<lambda>d. extractUsageFromSSE dec d = None) items,
               RangeDone (lastUsage dec items fu))
         else (take (sendsWithRoom taken i queued
                       (length (filter (\<lambda>d. extractUsageFromSSE dec d = None) items)))
                 (filter (\<lambda>d. extractUsageFromSSE dec d = None) items),
               ReturnedEarly))"
    by (rule forwardSelect_room)
next
  show "sendsWithRoom taken i queued n \<le> n"
    by (rule sendsWithRoom_le)
next
  show "queued \<le> wrappedChanCap \<and> (\<forall>j. 1 \<le> taken j) \<longrightarrow> sendsWithRoom taken i queued n = n"
    using sendsWithRoom_keeps_up[of queued taken i n] by blast
next
  show "queued + n \<le> wrappedChanCap \<longrightarrow> sendsWithRoom taken i queued n = n"
    using sendsWithRoom_fits[of queued n taken i] by blast
next
  show "dec (marshalUsageEvent (su_InputTokens su) (su_OutputTokens su)
               (su_InputTokens su + su_OutputTokens su)) =
         Some \<lparr>ue_Type = ''usage_update'', ue_InputTokens = su_InputTokens su,
                ue_OutputTokens = su_OutputTokens su,
                ue_TotalTokens = su_InputTokens su + su_OutputTokens su\<rparr> \<longrightarrow>
       (\<exists>usage. extractUsageFromSSE dec (usageFrame su) = Some usage
          \<and> InputTokens usage = su_InputTokens su \<and> OutputTokens usage = su_OutputTokens su
          \<and> forwardBlocking dec budget (usageFrame su # items) fu =
              forwardBlocking dec budget items (Some usage)
          \<and> forwardSelect dec taken i queued (usageFrame su # items) fu =
              forwardSelect dec taken i queued items (Some usage))"
  proof
    assume h: "dec (marshalUsageEvent (su_InputTokens su) (su_OutputTokens su)
               (su_InputTokens su + su_OutputTokens su)) =
         Some \<lparr>ue_Type = ''usage_update'', ue_InputTokens = su_InputTokens su,
                ue_OutputTokens = su_OutputTokens su,
                ue_TotalTokens = su_InputTokens su + su_OutputTokens su\<rparr>"
    have e: "extractUsageFromSSE dec (usageFrame su) =
      Some \<lparr>InputTokens = su_InputTokens su, OutputTokens = su_OutputTokens su,
             TotalTokens = su_InputTokens su + su_OutputTokens su,
             PromptTokens = su_InputTokens su, CompletionTokens = su_OutputTokens su\<rparr>"
      unfolding usageFrame_def using h by (rule extract_usageFrame)
    then show "\<exists>usage. extractUsageFromSSE dec (usageFrame su) = Some usage
          \<and> InputTokens usage = su_InputTokens su \<and> OutputTokens usage = su_OutputTokens su
          \<and> forwardBlocking dec budget (usageFrame su # items) fu =
              forwardBlocking dec budget items (Some usage)
          \<and> forwardSelect dec taken i queued (usageFrame su # items) fu =
              forwardSelect dec taken i queued items (Some usage)"
      by simp
  qed
qed

lemma examplePing_facts:
  "TrimSpace (''data: '' @ examplePing) = ''data: '' @ examplePing"
  "CHR ''\<newline>'' \<notin> set examplePing" "examplePing \<noteq> []" "examplePing \<noteq> ''[DONE]''"
  "terminalUsage exampleStreamDecoder examplePing = None"
  "extractUsageFromSSE exampleUsageDecoder ((''data: '' @ examplePing) @ NL) = None"
  by code_simp+

lemma exampleUsage_captured:
  "extractUsageFromSSE exampleUsageDecoder (usageFrame exampleUsage) =
     Some \<lparr>InputTokens = 12, OutputTokens = 34, TotalTokens = 46,
            PromptTokens = 12, CompletionTokens = 34\<rparr>"
  by code_simp

lemma example_items:
  "filter (\<lambda>d. extractUsageFromSSE exampleUsageDecoder d = None)
     [(''data: '' @ examplePing) @ NL, usageFrame exampleUsage, (''data: '' @ examplePing) @ NL] =
   [(''data: '' @ examplePing) @ NL, (''data: '' @ examplePing) @ NL]"
  "lastUsage exampleUsageDecoder
     [(''data: '' @ examplePing) @ NL, usageFrame exampleUsage, (''data: '' @ examplePing) @ NL] None =
   Some \<lparr>InputTokens = 12, OutputTokens = 34, TotalTokens = 46,
          PromptTokens = 12, CompletionTokens = 34\<rparr>"
  using examplePing_facts(6) exampleUsage_captured
  by (simp_all add: lastUsage_simps del: append.simps append_Cons)

theorem stream_event_relay_witness:
  "processSSEEvent exampleStreamDecoder (''data: '' @ examplePing) =
     Some ((''data: '' @ examplePing) @ NL)
   \<and> (\<exists>usage. forwardBlocking exampleUsageDecoder None
         [usageFrame exampleUsage, (''data: '' @ examplePing) @ NL] None =
           ([(''data: '' @ examplePing) @ NL], RangeDone (Some usage))
        \<and> InputTokens usage = 12 \<and> OutputTokens usage = 34)
   \<and> forwardSelect exampleUsageDecoder (\<lambda>j. 1) 0 100
        [(''data: '' @ examplePing) @ NL, usageFrame exampleUsage, (''data: '' @ examplePing) @ NL]
        None =
      ([(''data: '' @ examplePing) @ NL, (''data: '' @ examplePing) @ NL],
       RangeDone (Some \<lparr>InputTokens = 12, OutputTokens = 34, TotalTokens = 46,
                         PromptTokens = 12, CompletionTokens = 34\<rparr>))
   \<and> forwardSelect exampleUsageDecoder neverTaken 0 98
        [(''data: '' @ examplePing) @ NL, usageFrame exampleUsage, (''data: '' @ examplePing) @ NL]
        None =
      ([(''data: '' @ examplePing) @ NL, (''data: '' @ examplePing) @ NL],
       RangeDone (Some \<lparr>InputTokens = 12, OutputTokens = 34, TotalTokens = 46,
                         PromptTokens = 12, CompletionTokens = 34\<rparr>))"
proof -
  note th = stream_event_relay[where u = exampleStreamDecoder and payload = examplePing
      and dec = exampleUsageDecoder and items = "[(''data: '' @ examplePing) @ NL]"
      and fu = None and budget = None and su = exampleUsage]
  from th examplePing_facts
  have 1: "processSSEEvent exampleStreamDecoder (''data: '' @ examplePing) =
     Some ((''data: '' @ examplePing) @ NL)" by blast
  from th exampleUsage_roundtrip obtain usage where
    u: "InputTokens usage = su_InputTokens exampleUsage" "OutputTokens usage = su_OutputTokens exampleUsage"
       "forwardBlocking exampleUsageDecoder None
          (usageFrame exampleUsage # [(''data: '' @ examplePing) @ NL]) None =
        forwardBlocking exampleUsageDecoder None [(''data: '' @ examplePing) @ NL] (Some usage)"
    by blast
  have "forwardBlocking exampleUsageDecoder None [(''data: '' @ examplePing) @ NL] (Some usage) =
      ([(''data: '' @ examplePing) @ NL], RangeDone (Some usage))"
    using examplePing_facts(6) by (simp add: forwardBlocking_all lastUsage_simps)
  with u have 2: "forwardBlocking exampleUsageDecoder None
         [usageFrame exampleUsage, (''data: '' @ examplePing) @ NL] None =
           ([(''data: '' @ examplePing) @ NL], RangeDone (Some usage))
        \<and> InputTokens usage = 12 \<and> OutputTokens usage = 34"
    by (simp add: exampleUsage_def)
  let ?items = "[(''data: '' @ examplePing) @ NL, usageFrame exampleUsage, (''data: '' @ examplePing) @ NL]"
  let ?n = "length (filter (\<lambda>d. extractUsageFromSSE exampleUsageDecoder d = None) ?items)"
  note ts = stream_event_relay[where dec = exampleUsageDecoder and items = ?items
      and fu = None and taken = "\<lambda>j. 1" and i = 0 and queued = 100 and n = ?n]
  note ts_select = ts[THEN conjunct2, THEN conjunct2, THEN conjunct2, THEN conjunct2,
      THEN conjunct2, THEN conjunct1]
  note ts_keeps_up = ts[THEN conjunct2, THEN conjunct2, THEN conjunct2, THEN conjunct2,
      THEN conjunct2, THEN conjunct2, THEN conjunct2, THEN conjunct1]
  have "(100::nat) \<le> wrappedChanCap \<and> (\<forall>j::nat. (1::nat) \<le> 1)"
    by (simp add: wrappedChanCap_def)
  with ts_keeps_up have r: "sendsWithRoom (\<lambda>j. 1) 0 100 ?n = ?n" by blast
  from ts_select have "forwardSelect exampleUsageDecoder (\<lambda>j. 1) 0 100 ?items None =
      (filter (\<lambda>d. extractUsageFromSSE exampleUsageDecoder d = None) ?items,
       RangeDone (lastUsage exampleUsageDecoder ?items None))"
    by (simp only: r simp_thms if_True)
  then have 3: "forwardSelect exampleUsageDecoder (\<lambda>j. 1) 0 100 ?items None =
      ([(''data: '' @ examplePing) @ NL, (''data: '' @ examplePing) @ NL],
       RangeDone (Some \<lparr>InputTokens = 12, OutputTokens = 34, TotalTokens = 46,
                         PromptTokens = 12, CompletionTokens = 34\<rparr>))"
    by (simp only: example_items)
  note tn = stream_event_relay[where dec = exampleUsageDecoder and items = ?items
      and fu = None and taken = neverTaken and i = 0 and queued = 98 and n = ?n]
  note tn_select = tn[THEN conjunct2, THEN conjunct2, THEN conjunct2, THEN conjunct2,
      THEN conjunct2, THEN conjunct1]
  note tn_fits = tn[THEN conjunct2, THEN conjunct2, THEN conjunct2, THEN conjunct2,
      THEN conjunct2, THEN conjunct2, THEN conjunct2, THEN conjunct2, THEN conjunct1]
  have "98 + ?n \<le> wrappedChanCap"
    by (simp only: example_items) (simp add: wrappedChanCap_def)
  with tn_fits have r': "sendsWithRoom neverTaken 0 98 ?n = ?n" by blast
  from tn_select have "forwardSelect exampleUsageDecoder neverTaken 0 98 ?items None =
      (filter (\<lambda>d. extractUsageFromSSE exampleUsageDecoder d = None) ?items,
       RangeDone (lastUsage exampleUsageDecoder ?items None))"
    by (simp only: r' simp_thms if_True)
  then have 4: "forwardSelect exampleUsageDecoder neverTaken 0 98 ?items None =
      ([(''data: '' @ examplePing) @ NL, (''data: '' @ examplePing) @ NL],
       RangeDone (Some \<lparr>InputTokens = 12, OutputTokens = 34, TotalTokens = 46,
                         PromptTokens = 12, CompletionTokens = 34\<rparr>))"
    by (simp only: example_items)
  from 1 2 3 4 show ?thesis by blast
qed

lemma ping_frames:
  "filter (\<lambda>d. extractUsageFromSSE exampleUsageDecoder d = None)
     (replicate n ((''data: '' @ examplePing) @ NL)) = replicate n ((''data: '' @ examplePing) @ NL)"
  using examplePing_facts(6) by (simp del: append.simps append_Cons append_assoc)

lemma slowClient_room: "sendsWithRoom slowClient 0 0 300 = 199"
  by code_simp

lemma slow_client_cut:
  "forwardSelect exampleUsageDecoder slowClient 0 0
     (replicate 300 ((''data: '' @ examplePing) @ NL)) None =
   (replicate 199 ((''data: '' @ examplePing) @ NL), ReturnedEarly)"
  using forwardSelect_room[of exampleUsageDecoder slowClient 0 0
          "replicate 300 ((''data: '' @ examplePing) @ NL)" None]
  by (simp only: ping_frames length_replicate slowClient_room take_replicate) simp

lemma stalled_client_cut:
  "forwardBlocking exampleUsageDecoder (blockingBudget (Some 5))
     (replicate 300 ((''data: '' @ examplePing) @ NL)) None =
   (replicate 105 ((''data: '' @ examplePing) @ NL), BlockedOnSend)"
  using forwardBlocking_budget[of exampleUsageDecoder 105
          "replicate 300 ((''data: '' @ examplePing) @ NL)" None]
  by (simp only: ping_frames length_replicate take_replicate)
     (simp add: blockingBudget_def wrappedChanCap_def)

lemma vendor_usage_update:
  \<open>fst (forwardBlocking exampleUsageDecoder None
          (readLoop exampleStreamDecoder [] [(exampleDelta @ NL, Some EOF)]) None) =
     [''data: {"type":"content_block_delta","delta":{"text":"Hi"}}\<newline>\<newline>'']\<close>
  \<open>[''data: {"type":"content_block_delta","delta":{"text":"Hi"}}\<newline>\<newline>''] \<noteq> [exampleDelta @ NL]\<close>
  \<open>fst (forwardBlocking exampleUsageDecoder None
          (readLoop exampleStreamDecoder [] [((''data: '' @ exampleUntyped) @ NL, Some EOF)]) None) =
     [(''data: '' @ exampleUntyped) @ NL]\<close>
  \<open>Contains exampleUntyped ''"type":"usage_update"''\<close>
  \<open>terminalUsage exampleStreamDecoder exampleUsageUpdate = None\<close>
  \<open>forwardBlocking exampleUsageDecoder None
          (readLoop exampleStreamDecoder [] [((''data: '' @ exampleUsageUpdate) @ NL, Some EOF)]) None =
        ([], RangeDone (Some \<lparr>InputTokens = 12, OutputTokens = 34, TotalTokens = 46,
                               PromptTokens = 12, CompletionTokens = 34\<rparr>))\<close>
  by code_simp+

text \<open>
  C1 as stated fails. A content event with an \<open>event:\<close> line reaches the caller without
  that line. A vendor event of type \<open>usage_update\<close> whose usage is not an object is
  forwarded to the caller, as it is: the service does not recognise it. A vendor event of
  type \<open>usage_update\<close> with a usage, which is not the terminal usage summary, is not
  forwarded: the service takes it for a usage event. Of 300 content frames, a client that
  receives one item for every two sent gets 199 with the \<open>select\<close>, which then returns,
  and a client that receives five items and no more leaves the blocking send blocked
  after 105.
\<close>

theorem stream_event_relay_counterexample:
  \<open>fst (forwardBlocking exampleUsageDecoder None
          (readLoop exampleStreamDecoder [] [(exampleDelta @ NL, Some EOF)]) None) =
     [''data: {"type":"content_block_delta","delta":{"text":"Hi"}}\<newline>\<newline>'']
   \<and> [''data: {"type":"content_block_delta","delta":{"text":"Hi"}}\<newline>\<newline>''] \<noteq> [exampleDelta @ NL]
   \<and> fst (forwardBlocking exampleUsageDecoder None
          (readLoop exampleStreamDecoder [] [((''data: '' @ exampleUntyped) @ NL, Some EOF)]) None) =
       [(''data: '' @ exampleUntyped) @ NL]
   \<and> Contains exampleUntyped ''"type":"usage_update"''
   \<and> terminalUsage exampleStreamDecoder exampleUsageUpdate = None
   \<and> forwardBlocking exampleUsageDecoder None
          (readLoop exampleStreamDecoder [] [((''data: '' @ exampleUsageUpdate) @ NL, Some EOF)]) None =
        ([], RangeDone (Some \<lparr>InputTokens = 12, OutputTokens = 34, TotalTokens = 46,
                               PromptTokens = 12, CompletionTokens = 34\<rparr>))
   \<and> forwardSelect exampleUsageDecoder slowClient 0 0
        (replicate 300 ((''data: '' @ examplePing) @ NL)) None =
      (replicate 199 ((''data: '' @ examplePing) @ NL), ReturnedEarly)
   \<and> forwardBlocking exampleUsageDecoder (blockingBudget (Some 5))
        (replicate 300 ((''data: '' @ examplePing) @ NL)) None =
      (replicate 105 ((''data: '' @ examplePing) @ NL), BlockedOnSend)\<close>
  using vendor_usage_update slow_client_cut stalled_client_cut
  by (intro conjI)


section \<open>Properties of authentication and quota\<close>

lemma getBatchUsageFromDB_up:
  "\<not> db_down db \<Longrightarrow>
   getBatchUsageFromDB db now k =
     Inr \<lparr>DailyCount = countLogs (llm_request_logs db) k (wall (Truncate (24 * Hour) now))
                          (wall (Truncate (24 * Hour) now) + 24 * Hour),
          MonthlyCount = countLogs (llm_request_logs db) k
                          (wall (Date (Year now) (Month now) 1 0 (zone now)))
                          (wall (AddDate 0 1 0 (Date (Year now) (Month now) 1 0 (zone now))))\<rparr>"
  by (simp add: getBatchUsageFromDB_def Let_def Add_def)

lemma getBatchUsageFromDB_down:
  "db_down db \<Longrightarrow> getBatchUsageFromDB db now k = Inl ''database error''"
  by (simp add: getBatchUsageFromDB_def Let_def)

lemma quota_iff:
  "QuotaExceeded (fst (validateUsageLimitsOptimized db r now rid key)) \<longleftrightarrow>
     (\<exists>usage. usageRead db r now key = Inr usage
        \<and> (0 < key_DailyRequestLimit key \<and> key_DailyRequestLimit key \<le> DailyCount usage
           \<or> 0 < key_MonthlyRequestLimit key \<and> key_MonthlyRequestLimit key \<le> MonthlyCount usage))"
  by (auto simp: validateUsageLimitsOptimized_def usageRead_def QuotaExceeded_def Let_def
           split: option.splits sum.splits)

lemma unlimited_accepted:
  "key_DailyRequestLimit key \<le> 0 \<Longrightarrow> key_MonthlyRequestLimit key \<le> 0 \<Longrightarrow>
   \<exists>ctx. validateUsageLimitsOptimized db r now rid key = (Inr ctx, r) \<and> ctx_APIKey ctx = key"
  by (simp add: validateUsageLimitsOptimized_def Let_def)

lemma daily_limit_reached:
  assumes "0 < key_DailyRequestLimit key" and "\<not> db_down db"
    and "GetUsageCount r (wall now) (key_ID key) = None"
    and "key_DailyRequestLimit key \<le>
           countLogs (llm_request_logs db) (key_ID key) (wall (Truncate (24 * Hour) now))
             (wall (Truncate (24 * Hour) now) + 24 * Hour)"
  shows "fst (validateUsageLimitsOptimized db r now rid key) = Inl ''daily request limit exceeded''"
  using assms
  by (simp add: validateUsageLimitsOptimized_def Let_def getBatchUsageFromDB_up)

text \<open>
  The quota check as the code has it. \<open>validateUsageLimitsOptimized\<close> fails with a quota
  error exactly when the usage it reads, from the cache or else from the store, has a daily
  count at or above a positive daily ceiling or a monthly count at or above a positive
  monthly ceiling. A key whose ceilings are both zero (or negative) is accepted without a
  look at the usage. For a key with a positive daily ceiling, when the store holds at
  least that many log rows of the key in the window from \<open>now.Truncate(24 * time.Hour)\<close>
  to 24 hours later and the usage is read from the store, the call is rejected.
\<close>

lemma quota_check:
  "(QuotaExceeded (fst (validateUsageLimitsOptimized db r now rid key)) \<longleftrightarrow>
     (\<exists>usage. usageRead db r now key = Inr usage
        \<and> (0 < key_DailyRequestLimit key \<and> key_DailyRequestLimit key \<le> DailyCount usage
           \<or> 0 < key_MonthlyRequestLimit key \<and> key_MonthlyRequestLimit key \<le> MonthlyCount usage)))
   \<and> (key_DailyRequestLimit key \<le> 0 \<and> key_MonthlyRequestLimit key \<le> 0 \<longrightarrow>
        (\<exists>ctx. validateUsageLimitsOptimized db r now rid key = (Inr ctx, r)))
   \<and> (0 < key_DailyRequestLimit key \<and> \<not> db_down db
        \<and> GetUsageCount r (wall now) (key_ID key) = None
        \<and> key_DailyRequestLimit key \<le>
             countLogs (llm_request_logs db) (key_ID key) (wall (Truncate (24 * Hour) now))
               (wall (Truncate (24 * Hour) now) + 24 * Hour) \<longrightarrow>
        fst (validateUsageLimitsOptimized db r now rid key) = Inl ''daily request limit exceeded'')"
  using quota_iff[of db r now rid key] unlimited_accepted[of key db r now rid]
    daily_limit_reached[of key db r now rid]
  by blast

lemma example_quota_facts:
  "GetUsageCount emptyCache (wall exampleNow) (key_ID (exampleKey 2 ''active'')) = None"
  "countLogs (llm_request_logs (exampleDB [] [exampleRow 1 ''completed'', exampleRow 2 ''completed'']))
     (key_ID (exampleKey 2 ''active'')) (wall (Truncate (24 * Hour) exampleNow))
     (wall (Truncate (24 * Hour) exampleNow) + 24 * Hour) = 2"
  "key_DailyRequestLimit (exampleKey 2 ''active'') = 2"
  "\<not> db_down (exampleDB [] [exampleRow 1 ''completed'', exampleRow 2 ''completed''])"
  "key_DailyRequestLimit (exampleKey 0 ''active'') = 0"
  "key_MonthlyRequestLimit (exampleKey 0 ''active'') = 0"
  by code_simp+

lemma quota_check_example:
  "fst (validateUsageLimitsOptimized
          (exampleDB [] [exampleRow 1 ''completed'', exampleRow 2 ''completed''])
          emptyCache exampleNow ''req-3'' (exampleKey 2 ''active'')) =
     Inl ''daily request limit exceeded''
   \<and> QuotaExceeded (fst (validateUsageLimitsOptimized
          (exampleDB [] [exampleRow 1 ''completed'', exampleRow 2 ''completed''])
          emptyCache exampleNow ''req-3'' (exampleKey 2 ''active'')))
   \<and> (\<exists>ctx. validateUsageLimitsOptimized
          (exampleDB [] [exampleRow 1 ''completed'', exampleRow 2 ''completed''])
          emptyCache exampleNow ''req-3'' (exampleKey 0 ''active'') = (Inr ctx, emptyCache))"
proof -
  note a = quota_check[where db = "exampleDB [] [exampleRow 1 ''completed'', exampleRow 2 ''completed'']"
      and r = emptyCache and now = exampleNow and rid = "''req-3''" and key = "exampleKey 2 ''active''"]
  note b = quota_check[where db = "exampleDB [] [exampleRow 1 ''completed'', exampleRow 2 ''completed'']"
      and r = emptyCache and now = exampleNow and rid = "''req-3''" and key = "exampleKey 0 ''active''"]
  from a example_quota_facts
  have 1: "fst (validateUsageLimitsOptimized
          (exampleDB [] [exampleRow 1 ''completed'', exampleRow 2 ''completed''])
          emptyCache exampleNow ''req-3'' (exampleKey 2 ''active'')) =
     Inl ''daily request limit exceeded''"
    by simp
  then have 2: "QuotaExceeded (fst (validateUsageLimitsOptimized
          (exampleDB [] [exampleRow 1 ''completed'', exampleRow 2 ''completed''])
          emptyCache exampleNow ''req-3'' (exampleKey 2 ''active'')))"
    by (simp add: QuotaExceeded_def)
  from b example_quota_facts
  have 3: "\<exists>ctx. validateUsageLimitsOptimized
          (exampleDB [] [exampleRow 1 ''completed'', exampleRow 2 ''completed''])
          emptyCache exampleNow ''req-3'' (exampleKey 0 ''active'') = (Inr ctx, emptyCache)"
    by simp
  from 1 2 3 show ?thesis by blast
qed

text \<open>
  C4, at a gateway whose clock is in the zone eight hours east of UTC. The key has the
  daily ceiling 1. Its one log row is of 00:30 on 1 November 2026, local time, and the
  call comes at 20:00 of the same local day, with nothing in the cache: it is the second
  call of the key within that calendar day. The window of the daily count starts at
  \<open>now.Truncate(24 * time.Hour)\<close>, which is 08:00 local time (midnight UTC), so the row is
  not in it, while the month, which starts at local midnight of the first, has it. The
  daily count is 0 and the call is accepted, by \<open>validateUsageLimitsOptimized\<close> and by
  \<open>ValidateAPIKeyOptimized\<close> on the key's value.
\<close>

theorem quota_check_local_day:
  "(Year exampleNow, Month exampleNow, Day exampleNow, localNanos exampleNow mod (24 * Hour)) =
     (2026, 11, 1, 20 * Hour)
   \<and> (Year \<lparr>wall = log_CreatedAt (exampleRow 1170 ''completed''), zone = zone exampleNow\<rparr>,
       Month \<lparr>wall = log_CreatedAt (exampleRow 1170 ''completed''), zone = zone exampleNow\<rparr>,
       Day \<lparr>wall = log_CreatedAt (exampleRow 1170 ''completed''), zone = zone exampleNow\<rparr>,
       localNanos \<lparr>wall = log_CreatedAt (exampleRow 1170 ''completed''), zone = zone exampleNow\<rparr>
         mod (24 * Hour)) =
     (2026, 11, 1, 30 * Minute)
   \<and> log_APIKeyID (exampleRow 1170 ''completed'') = key_ID (exampleKey 1 ''active'')
   \<and> key_DailyRequestLimit (exampleKey 1 ''active'') = 1
   \<and> GetUsageCount emptyCache (wall exampleNow) (key_ID (exampleKey 1 ''active'')) = None
   \<and> getBatchUsageFromDB (exampleDB [exampleKey 1 ''active''] [exampleRow 1170 ''completed''])
        exampleNow (key_ID (exampleKey 1 ''active'')) =
      Inr \<lparr>DailyCount = 0, MonthlyCount = 1\<rparr>
   \<and> fst (validateUsageLimitsOptimized
             (exampleDB [exampleKey 1 ''active''] [exampleRow 1170 ''completed''])
             emptyCache exampleNow ''req-1'' (exampleKey 1 ''active'')) =
      Inr (exampleCtx\<lparr>ctx_APIKey := exampleKey 1 ''active''\<rparr>)
   \<and> fst (ValidateAPIKeyOptimized
             (exampleDB [exampleKey 1 ''active''] [exampleRow 1170 ''completed''])
             emptyCache exampleNow ''req-1'' ''sk-demo'') =
      Inr (exampleCtx\<lparr>ctx_APIKey := exampleKey 1 ''active''\<rparr>)"
  by code_simp

lemma GetAPIKey_hit:
  assumes "r = Some store" and "store (''api_key:'' @ apiKey) = Some (KeyEntry entry, expiry)"
    and "t < expiry" and "\<forall>e. ce_ExpiresAt entry = Some e \<longrightarrow> \<not> Before e t"
  shows "GetAPIKey r t apiKey = (Some (ce_APIKey entry), r)"
  using assms by (auto simp: GetAPIKey_def redisGet_def Let_def split: option.splits)

lemma GetAPIKey_expired:
  assumes "r = Some store" and "store (''api_key:'' @ apiKey) = Some (KeyEntry entry, expiry)"
    and "t < expiry" and "ce_ExpiresAt entry = Some e" and "Before e t"
  shows "GetAPIKey r t apiKey = (None, redisDel r (''api_key:'' @ apiKey))"
  using assms by (auto simp: GetAPIKey_def redisGet_def Let_def split: option.splits)

lemma GetAPIKey_ttl_over:
  assumes "r = Some store" and "store (''api_key:'' @ apiKey) = Some (v, expiry)"
    and "expiry \<le> t"
  shows "GetAPIKey r t apiKey = (None, r)"
  using assms by (auto simp: GetAPIKey_def redisGet_def Let_def split: option.splits)

lemma GetAPIKey_invalidated:
  "GetAPIKey (InvalidateAPIKey r apiKey) t apiKey = (None, InvalidateAPIKey r apiKey)"
  by (cases r) (auto simp: GetAPIKey_def redisGet_def redisDel_def InvalidateAPIKey_def Let_def)

lemma getBatchUsageFromDB_keys:
  "getBatchUsageFromDB (db\<lparr>api_keys := rows\<rparr>) now k = getBatchUsageFromDB db now k"
  by (simp add: getBatchUsageFromDB_def Let_def)

lemma validateUsageLimitsOptimized_keys:
  "validateUsageLimitsOptimized (db\<lparr>api_keys := rows\<rparr>) r now rid key =
   validateUsageLimitsOptimized db r now rid key"
  unfolding validateUsageLimitsOptimized_def getBatchUsageFromDB_keys ..

lemma Validate_miss_no_active_row:
  assumes "fst (GetAPIKey r (wall now) apiKey) = None"
    and "\<forall>row \<in> set (api_keys db). key_KeyValue row = apiKey \<longrightarrow> key_Status row \<noteq> ''active''"
  shows "fst (ValidateAPIKeyOptimized db r now rid apiKey) = Inl ''invalid API key''"
proof -
  obtain r' where g: "GetAPIKey r (wall now) apiKey = (None, r')"
    using assms(1) by (cases "GetAPIKey r (wall now) apiKey") auto
  have "find (\<lambda>row. key_DeletedAt row = None \<and> key_KeyValue row = apiKey
                                  \<and> key_Status row = ''active'') (api_keys db) = None"
    using assms(2) by (auto simp: find_None_iff)
  with g show ?thesis by (simp add: ValidateAPIKeyOptimized_def)
qed

text \<open>
  C10. While the cache holds an entry for the access key whose time to live is not over,
  \<open>ValidateAPIKeyOptimized\<close> checks only the expiry time stored in the entry: it goes on
  with the cached key, whatever the rows of the store say, so whatever status the key has
  there by now, and a key without ceilings is accepted. An entry whose expiry time is
  past, whose time to live is over, or that has been invalidated is a miss, and then a
  key with no active row in the store is refused.
\<close>

theorem cache_hit_skips_status:
  assumes "r = Some store" and "store (''api_key:'' @ apiKey) = Some (KeyEntry entry, expiry)"
    and "wall now < expiry"
  shows "((\<forall>e. ce_ExpiresAt entry = Some e \<longrightarrow> \<not> Before e (wall now)) \<longrightarrow>
            ValidateAPIKeyOptimized db r now rid apiKey =
              validateUsageLimitsOptimized db r now rid (ce_APIKey entry)
          \<and> ValidateAPIKeyOptimized (db\<lparr>api_keys := rows\<rparr>) r now rid apiKey =
              ValidateAPIKeyOptimized db r now rid apiKey
          \<and> (key_DailyRequestLimit (ce_APIKey entry) \<le> 0
               \<and> key_MonthlyRequestLimit (ce_APIKey entry) \<le> 0 \<longrightarrow>
              (\<exists>ctx. ValidateAPIKeyOptimized (db\<lparr>api_keys := rows\<rparr>) r now rid apiKey = (Inr ctx, r)
                 \<and> ctx_APIKey ctx = ce_APIKey entry)))
       \<and> ((\<exists>e. ce_ExpiresAt entry = Some e \<and> Before e (wall now)) \<longrightarrow>
            fst (GetAPIKey r (wall now) apiKey) = None)
       \<and> (\<forall>later. expiry \<le> later \<longrightarrow> fst (GetAPIKey r later apiKey) = None)
       \<and> fst (GetAPIKey (InvalidateAPIKey r apiKey) (wall now) apiKey) = None
       \<and> (\<forall>cache. fst (GetAPIKey cache (wall now) apiKey) = None
             \<and> (\<forall>row \<in> set rows. key_KeyValue row = apiKey \<longrightarrow> key_Status row \<noteq> ''active'') \<longrightarrow>
            fst (ValidateAPIKeyOptimized (db\<lparr>api_keys := rows\<rparr>) cache now rid apiKey) =
              Inl ''invalid API key'')"
proof (intro conjI impI allI)
  assume live: "\<forall>e. ce_ExpiresAt entry = Some e \<longrightarrow> \<not> Before e (wall now)"
  have hit: "GetAPIKey r (wall now) apiKey = (Some (ce_APIKey entry), r)"
    using assms live by (rule GetAPIKey_hit)
  show 1: "ValidateAPIKeyOptimized db r now rid apiKey =
      validateUsageLimitsOptimized db r now rid (ce_APIKey entry)"
    using hit by (simp add: ValidateAPIKeyOptimized_def)
  have k1: "ValidateAPIKeyOptimized (db\<lparr>api_keys := rows\<rparr>) r now rid apiKey =
      validateUsageLimitsOptimized (db\<lparr>api_keys := rows\<rparr>) r now rid (ce_APIKey entry)"
    using hit by (simp add: ValidateAPIKeyOptimized_def)
  show 2: "ValidateAPIKeyOptimized (db\<lparr>api_keys := rows\<rparr>) r now rid apiKey =
      ValidateAPIKeyOptimized db r now rid apiKey"
    using 1 k1 by (simp add: validateUsageLimitsOptimized_keys)
  assume "key_DailyRequestLimit (ce_APIKey entry) \<le> 0 \<and> key_MonthlyRequestLimit (ce_APIKey entry) \<le> 0"
  then show "\<exists>ctx. ValidateAPIKeyOptimized (db\<lparr>api_keys := rows\<rparr>) r now rid apiKey = (Inr ctx, r)
                 \<and> ctx_APIKey ctx = ce_APIKey entry"
    using 1 2 unlimited_accepted[of "ce_APIKey entry" db r now rid] by simp
next
  assume "\<exists>e. ce_ExpiresAt entry = Some e \<and> Before e (wall now)"
  then show "fst (GetAPIKey r (wall now) apiKey) = None"
    using GetAPIKey_expired[OF assms] by auto
next
  fix later assume "expiry \<le> later"
  then show "fst (GetAPIKey r later apiKey) = None"
    using GetAPIKey_ttl_over[OF assms(1,2)] by simp
next
  show "fst (GetAPIKey (InvalidateAPIKey r apiKey) (wall now) apiKey) = None"
    by (simp add: GetAPIKey_invalidated)
next
  fix cache
  assume "fst (GetAPIKey cache (wall now) apiKey) = None \<and>
       (\<forall>row\<in>set rows. key_KeyValue row = apiKey \<longrightarrow> key_Status row \<noteq> ''active'')"
  then show "fst (ValidateAPIKeyOptimized (db\<lparr>api_keys := rows\<rparr>) cache now rid apiKey) =
              Inl ''invalid API key''"
    using Validate_miss_no_active_row[of cache now apiKey "db\<lparr>api_keys := rows\<rparr>" rid] by simp
qed

lemma exampleCache_store: "exampleCache = Some exampleStore"
  by (simp add: exampleCache_def exampleStore_def SetAPIKey_def redisSet_def emptyCache_def
        exampleKey_def Minute_def add.commute)

lemma exampleStore_facts:
  "exampleStore (''api_key:'' @ ''sk-demo'') =
     Some (KeyEntry \<lparr>ce_APIKey = marshalAPIKey (exampleKey 0 ''active''),
                    ce_CachedAt = wall exampleNow - Minute, ce_ExpiresAt = None\<rparr>,
           wall exampleNow + 4 * Minute)"
  "wall exampleNow < wall exampleNow + 4 * Minute"
  "key_DailyRequestLimit (marshalAPIKey (exampleKey 0 ''active'')) \<le> 0"
  "key_MonthlyRequestLimit (marshalAPIKey (exampleKey 0 ''active'')) \<le> 0"
  "key_Status (marshalAPIKey (exampleKey 0 ''active'')) = ''active''"
  by (simp_all add: exampleStore_def Minute_def marshalAPIKey_def exampleKey_def)

theorem cache_hit_skips_status_witness:
  "\<exists>ctx. ValidateAPIKeyOptimized ((exampleDB [] [])\<lparr>api_keys := [exampleKey 0 ''revoked'']\<rparr>)
            exampleCache exampleNow ''req-1'' ''sk-demo'' = (Inr ctx, exampleCache)
      \<and> key_Status (ctx_APIKey ctx) = ''active''"
proof -
  note th = cache_hit_skips_status[OF exampleCache_store exampleStore_facts(1,2),
      where db = "exampleDB [] []" and rid = "''req-1''" and rows = "[exampleKey 0 ''revoked'']"]
  have live: "\<forall>e. ce_ExpiresAt \<lparr>ce_APIKey = marshalAPIKey (exampleKey 0 ''active''),
                    ce_CachedAt = wall exampleNow - Minute, ce_ExpiresAt = None\<rparr> = Some e
                 \<longrightarrow> \<not> Before e (wall exampleNow)"
    by simp
  have lim: "key_DailyRequestLimit (ce_APIKey \<lparr>ce_APIKey = marshalAPIKey (exampleKey 0 ''active''),
                    ce_CachedAt = wall exampleNow - Minute, ce_ExpiresAt = None\<rparr>) \<le> 0
      \<and> key_MonthlyRequestLimit (ce_APIKey \<lparr>ce_APIKey = marshalAPIKey (exampleKey 0 ''active''),
                    ce_CachedAt = wall exampleNow - Minute, ce_ExpiresAt = None\<rparr>) \<le> 0"
    using exampleStore_facts(3,4) by simp
  from th live lim obtain ctx where
    "ValidateAPIKeyOptimized ((exampleDB [] [])\<lparr>api_keys := [exampleKey 0 ''revoked'']\<rparr>)
            exampleCache exampleNow ''req-1'' ''sk-demo'' = (Inr ctx, exampleCache)"
    "ctx_APIKey ctx = ce_APIKey \<lparr>ce_APIKey = marshalAPIKey (exampleKey 0 ''active''),
                    ce_CachedAt = wall exampleNow - Minute, ce_ExpiresAt = None\<rparr>"
    by blast
  with exampleStore_facts(5) show ?thesis by auto
qed

lemma Truncate_day_bounds:
  "wall (Truncate (24 * Hour) now) \<le> wall now \<and> wall now < wall (Truncate (24 * Hour) now) + 24 * Hour"
proof -
  have d: "(0::int) < 24 * Hour" by (simp add: Hour_def)
  have "0 \<le> (wall now + 62135596800 * 1000000000) mod (24 * Hour)"
    and "(wall now + 62135596800 * 1000000000) mod (24 * Hour) < 24 * Hour"
    using d by simp_all
  then show ?thesis using d by (simp add: Truncate_def)
qed

text \<open>
  C3, as the code has it. \<open>getBatchUsageFromDB\<close> counts the log rows of the key,
  whatever their status, created in a window of 24 hours that holds \<open>now\<close> and in the
  window from \<open>time.Date(now.Year(), now.Month(), 1, 0, 0, 0, 0, now.Location())\<close> to one
  month later; all four bounds come from the one \<open>now\<close> of the function.
\<close>

theorem usage_counts_windows:
  assumes "\<not> db_down db"
  shows "getBatchUsageFromDB db now k =
           Inr \<lparr>DailyCount =
                  int (length (filter (\<lambda>row. log_APIKeyID row = k
                         \<and> wall (Truncate (24 * Hour) now) \<le> log_CreatedAt row
                         \<and> log_CreatedAt row < wall (Truncate (24 * Hour) now) + 24 * Hour)
                       (llm_request_logs db))),
                MonthlyCount =
                  int (length (filter (\<lambda>row. log_APIKeyID row = k
                         \<and> wall (Date (Year now) (Month now) 1 0 (zone now)) \<le> log_CreatedAt row
                         \<and> log_CreatedAt row <
                             wall (AddDate 0 1 0 (Date (Year now) (Month now) 1 0 (zone now))))
                       (llm_request_logs db)))\<rparr>
       \<and> wall (Truncate (24 * Hour) now) \<le> wall now
       \<and> wall now < wall (Truncate (24 * Hour) now) + 24 * Hour"
  using assms Truncate_day_bounds[of now]
  by (simp add: getBatchUsageFromDB_up countLogs_def)

lemma exampleDB_up: "\<not> db_down (exampleDB keys logs)"
  by (simp add: exampleDB_def)

theorem usage_counts_windows_witness:
  "getBatchUsageFromDB (exampleDB [] [exampleRow 1 ''completed'', exampleRow 2 ''pending''])
     exampleNow 7 = Inr \<lparr>DailyCount = 2, MonthlyCount = 2\<rparr>"
proof -
  have c: "int (length (filter (\<lambda>row. log_APIKeyID row = 7
                         \<and> wall (Truncate (24 * Hour) exampleNow) \<le> log_CreatedAt row
                         \<and> log_CreatedAt row < wall (Truncate (24 * Hour) exampleNow) + 24 * Hour)
                       (llm_request_logs (exampleDB [] [exampleRow 1 ''completed'', exampleRow 2 ''pending''])))) = 2"
    by code_simp
  have m: "int (length (filter (\<lambda>row. log_APIKeyID row = 7
                         \<and> wall (Date (Year exampleNow) (Month exampleNow) 1 0 (zone exampleNow)) \<le> log_CreatedAt row
                         \<and> log_CreatedAt row <
                             wall (AddDate 0 1 0 (Date (Year exampleNow) (Month exampleNow) 1 0 (zone exampleNow))))
                       (llm_request_logs (exampleDB [] [exampleRow 1 ''completed'', exampleRow 2 ''pending''])))) = 2"
    by code_simp
  show ?thesis
    using usage_counts_windows[OF exampleDB_up, of "[]" "[exampleRow 1 ''completed'', exampleRow 2 ''pending'']" exampleNow 7]
    by (simp only: c m)
qed

text \<open>C3 as stated fails: a row in state \<open>failed\<close> is counted.\<close>

theorem usage_counts_counterexample:
  "getBatchUsageFromDB (exampleDB [] [exampleRow 1 ''failed'']) exampleNow 7 =
     Inr \<lparr>DailyCount = 1, MonthlyCount = 1\<rparr>
   \<and> filter completedOrPending (llm_request_logs (exampleDB [] [exampleRow 1 ''failed''])) = []"
  by code_simp


section \<open>Properties of the cost calculation\<close>

lemma round64_zero: "round64 0 = Finite 0"
  by (simp add: round64_def)

lemma float64_of_int_zero: "float64_of_int 0 = Finite 0"
  by (simp add: float64_of_int_def round64_zero)

lemma zero_tokens_cost: "fdiv (fmul (float64_of_int 0) (Finite price)) (Finite 1000) = Finite 0"
  by (simp add: float64_of_int_zero round64_zero)

text \<open>
  C6, as the code has it. \<open>CalculateCost\<close> returns the input cost
  \<open>float64(usage.InputTokens) * model.InputCostPer1K / 1000.0\<close>, the output cost likewise
  and their sum as the total cost, where the conversion, the product, the quotient and
  the sum are each rounded to the nearest \<open>float64\<close>. With no input tokens and a finite
  input price the input cost is zero, likewise the output cost, and with no tokens at all
  and finite prices the three costs are zero.
\<close>

theorem CalculateCost_float64:
  "(CalculateCost usage model = (inputCost, outputCost, totalCost) \<longleftrightarrow>
      inputCost =
        fdiv (fmul (float64_of_int (InputTokens usage)) (model_InputCostPer1K model)) (Finite 1000)
      \<and> outputCost =
        fdiv (fmul (float64_of_int (OutputTokens usage)) (model_OutputCostPer1K model)) (Finite 1000)
      \<and> totalCost = fadd inputCost outputCost)
   \<and> (InputTokens usage = 0 \<and> model_InputCostPer1K model = Finite priceIn \<longrightarrow>
        fst (CalculateCost usage model) = Finite 0)
   \<and> (OutputTokens usage = 0 \<and> model_OutputCostPer1K model = Finite priceOut \<longrightarrow>
        fst (snd (CalculateCost usage model)) = Finite 0)
   \<and> (InputTokens usage = 0 \<and> OutputTokens usage = 0
        \<and> model_InputCostPer1K model = Finite priceIn
        \<and> model_OutputCostPer1K model = Finite priceOut \<longrightarrow>
        CalculateCost usage model = (Finite 0, Finite 0, Finite 0))"
  by (auto simp add: CalculateCost_def Let_def zero_tokens_cost round64_zero)

lemma examplePricedModel_prices:
  "model_InputCostPer1K examplePricedModel = Finite (1152921504606847 / 1152921504606846976)"
  "model_OutputCostPer1K examplePricedModel = Finite (1152921504606847 / 576460752303423488)"
  by code_simp+

lemma usageOf_simps [simp]:
  "InputTokens (usageOf inp outp) = inp" "OutputTokens (usageOf inp outp) = outp"
  by (simp_all add: usageOf_def)

lemma example_input_costs:
  "fdiv (fmul (float64_of_int 1) (Finite (1152921504606847 / 1152921504606846976))) (Finite 1000) =
     Finite (4722366482869645 / 4722366482869645213696)"
  "fdiv (fmul (float64_of_int 4) (Finite (1152921504606847 / 1152921504606846976))) (Finite 1000) =
     Finite (4722366482869645 / 1180591620717411303424)"
  "fdiv (fmul (float64_of_int 5) (Finite (1152921504606847 / 1152921504606846976))) (Finite 1000) =
     Finite (5902958103587057 / 1180591620717411303424)"
  "fdiv (fmul (float64_of_int 12) (Finite (1152921504606847 / 1152921504606846976))) (Finite 1000) =
     Finite (1770887431076117 / 147573952589676412928)"
  "fdiv (fmul (float64_of_int 34) (Finite (1152921504606847 / 576460752303423488))) (Finite 1000) =
     Finite (2508757194024499 / 36893488147419103232)"
  "fadd (Finite (4722366482869645 / 4722366482869645213696))
        (Finite (4722366482869645 / 1180591620717411303424)) =
     Finite (368934881474191 / 73786976294838206464)"
  "fadd (Finite (1770887431076117 / 147573952589676412928))
        (Finite (2508757194024499 / 36893488147419103232)) =
     Finite (368934881474191 / 4611686018427387904)"
  by code_simp+

lemma example_nan_cost:
  "fdiv (fmul (float64_of_int 0) (Infinity True)) (Finite 1000) = NaN"
  "fadd NaN (Finite 0) = NaN"
  by (simp_all add: float64_of_int_zero)

theorem CalculateCost_float64_witness:
  "CalculateCost (usageOf 12 34) examplePricedModel =
     (Finite (1770887431076117 / 147573952589676412928),
      Finite (2508757194024499 / 36893488147419103232),
      Finite (368934881474191 / 4611686018427387904))
   \<and> CalculateCost (usageOf 0 0) examplePricedModel = (Finite 0, Finite 0, Finite 0)"
  using CalculateCost_float64
          [where usage = "usageOf 12 34" and model = examplePricedModel
             and inputCost = "Finite (1770887431076117 / 147573952589676412928)"
             and outputCost = "Finite (2508757194024499 / 36893488147419103232)"
             and totalCost = "Finite (368934881474191 / 4611686018427387904)"]
        CalculateCost_float64
          [where usage = "usageOf 0 0" and model = examplePricedModel
             and priceIn = "1152921504606847 / 1152921504606846976"
             and priceOut = "1152921504606847 / 576460752303423488"]
  by (simp add: examplePricedModel_prices example_input_costs
        del: fmul.simps fdiv.simps fadd.simps)

text \<open>
  C6 as stated fails. At the input price 0.001 the input cost of 1 token plus the input
  cost of 4 tokens, added as \<open>float64\<close> values, is not the input cost of 5 tokens: the two
  differ in the last bit. And zero tokens do not cost zero at a price that is infinite:
  \<open>0 * +Inf\<close> is a NaN.
\<close>

theorem CalculateCost_additive_counterexample:
  "fst (CalculateCost (usageOf 1 0) examplePricedModel) =
     Finite (4722366482869645 / 4722366482869645213696)
   \<and> fst (CalculateCost (usageOf 4 0) examplePricedModel) =
     Finite (4722366482869645 / 1180591620717411303424)
   \<and> fst (CalculateCost (usageOf (1 + 4) 0) examplePricedModel) =
     Finite (5902958103587057 / 1180591620717411303424)
   \<and> fadd (fst (CalculateCost (usageOf 1 0) examplePricedModel))
           (fst (CalculateCost (usageOf 4 0) examplePricedModel)) =
     Finite (368934881474191 / 73786976294838206464)
   \<and> fadd (fst (CalculateCost (usageOf 1 0) examplePricedModel))
           (fst (CalculateCost (usageOf 4 0) examplePricedModel)) \<noteq>
       fst (CalculateCost (usageOf (1 + 4) 0) examplePricedModel)
   \<and> CalculateCost (usageOf 0 0)
        (examplePricedModel\<lparr>model_InputCostPer1K := Infinity True\<rparr>) =
       (NaN, Finite 0, NaN)"
  by (simp add: CalculateCost_def Let_def examplePricedModel_prices example_input_costs
        zero_tokens_cost example_nan_cost del: fmul.simps fdiv.simps fadd.simps)


section \<open>The accounting record of a streaming call\<close>

text \<open>
  C2 at a client that is gone. The upstream delivers 101 content frames and then the
  usage frame; the client receives nothing. The goroutine fills the buffer with 100
  frames; at the next one the revision with \<open>select\<close> returns and the original blocks for
  ever, so neither reaches the update and the log row stays \<open>pending\<close>.
\<close>

theorem stream_record_left_pending:
  "fst (StreamChatCompletion_select noCost exampleUsageDecoder (exampleDB [] []) (wall exampleNow) 1500
          exampleCtx ''claude-3'' ''10.0.0.1'' ''curl''
          (Inr (replicate 101 ((''data: '' @ examplePing) @ NL) @ [usageFrame exampleUsage]))
          neverTaken) =
     Inr (replicate 100 ((''data: '' @ examplePing) @ NL), ReturnedEarly)
   \<and> map log_Status (llm_request_logs (snd
        (StreamChatCompletion_select noCost exampleUsageDecoder (exampleDB [] []) (wall exampleNow) 1500
          exampleCtx ''claude-3'' ''10.0.0.1'' ''curl''
          (Inr (replicate 101 ((''data: '' @ examplePing) @ NL) @ [usageFrame exampleUsage]))
          neverTaken))) = [''pending'']
   \<and> fst (StreamChatCompletion noCost exampleUsageDecoder (exampleDB [] []) (wall exampleNow) 1500
          exampleCtx ''claude-3'' ''10.0.0.1'' ''curl''
          (Inr (replicate 101 ((''data: '' @ examplePing) @ NL) @ [usageFrame exampleUsage]))
          (Some 0)) =
     Inr (replicate 100 ((''data: '' @ examplePing) @ NL), BlockedOnSend)
   \<and> map log_Status (llm_request_logs (snd
        (StreamChatCompletion noCost exampleUsageDecoder (exampleDB [] []) (wall exampleNow) 1500
          exampleCtx ''claude-3'' ''10.0.0.1'' ''curl''
          (Inr (replicate 101 ((''data: '' @ examplePing) @ NL) @ [usageFrame exampleUsage]))
          (Some 0)))) = [''pending'']"
  by code_simp

end
